theory Spec2Isabelle
  imports Complex_Main "HOL-Library.Multiset"
begin

section \<open>Python values, exceptions and string primitives\<close>

text \<open>
  The knowledge-base question answering core of the repository consists of
  \<^verbatim>\<open>deeppavlov/models/kbqa/utils.py\<close>, \<^verbatim>\<open>wiki_parser.py\<close> and
  \<^verbatim>\<open>query_generator.py\<close>. Each function is embedded as a HOL function of the same name.
  A raise of the source is the left injection of a sum type. Strings are \<^typ>\<open>string\<close>;
  character classes (\<^verbatim>\<open>\d\<close>, \<^verbatim>\<open>\s\<close>, \<^verbatim>\<open>\w\<close>, \<^verbatim>\<open>str.isdigit\<close>,
  \<^verbatim>\<open>str.lower\<close>) are decided on the ASCII range.
\<close>

datatype error = NameError | UnboundLocalError | KeyError | IndexError | ValueError
  | TypeError | AttributeError

text \<open>The two kinds of list element the code produces: identifiers and integers.\<close>

datatype pyval = VStr string | VInt int

text \<open>
  An element of a list that the code reads both as a tuple of strings and as a string
  (\<^verbatim>\<open>filter_from_query\<close>, \<^verbatim>\<open>order_from_query\<close> and the arguments they are passed as).
\<close>

datatype pyobj = OStr string | OTuple "string list"

definition bind_err :: "error + 'a \<Rightarrow> ('a \<Rightarrow> error + 'b) \<Rightarrow> error + 'b" where
  "bind_err r f = (case r of Inl e \<Rightarrow> Inl e | Inr v \<Rightarrow> f v)"

text \<open>Running a fallible function over a list stops at the first raise, left to right.\<close>

fun map_err :: "('a \<Rightarrow> error + 'b) \<Rightarrow> 'a list \<Rightarrow> error + 'b list" where
  "map_err f [] = Inr []"
| "map_err f (x # xs) =
     (case f x of Inl e \<Rightarrow> Inl e
      | Inr y \<Rightarrow> (case map_err f xs of Inl e \<Rightarrow> Inl e | Inr ys \<Rightarrow> Inr (y # ys)))"

definition newline :: char where
  "newline = CHR 0x0A"

definition is_digit :: "char \<Rightarrow> bool" where
  "is_digit c = (c \<in> set ''0123456789'')"

definition is_space :: "char \<Rightarrow> bool" where
  "is_space c = (c \<in> set [CHR 0x09, CHR 0x0A, CHR 0x0B, CHR 0x0C, CHR 0x0D,
                            CHR 0x1C, CHR 0x1D, CHR 0x1E, CHR 0x1F, CHR '' ''])"

definition is_word :: "char \<Rightarrow> bool" where
  "is_word c = (c \<in> set ''0123456789ABCDEFGHIJKLMNOPQRSTUVWXYZ_abcdefghijklmnopqrstuvwxyz'')"

definition str_startswith :: "string \<Rightarrow> string \<Rightarrow> bool" where
  "str_startswith s p = (take (length p) s = p)"

definition str_endswith :: "string \<Rightarrow> string \<Rightarrow> bool" where
  "str_endswith s p = (length p \<le> length s \<and> drop (length s - length p) s = p)"

text \<open>\<^verbatim>\<open>s.find(sub)\<close>: the index of the first occurrence, or -1.\<close>

fun str_find :: "string \<Rightarrow> string \<Rightarrow> int" where
  "str_find [] sub = (if sub = [] then 0 else - 1)"
| "str_find (c # cs) sub =
     (if str_startswith (c # cs) sub then 0
      else (let r = str_find cs sub in if r < 0 then - 1 else r + 1))"

text \<open>\<^verbatim>\<open>sub in s\<close>.\<close>

definition str_contains :: "string \<Rightarrow> string \<Rightarrow> bool" where
  "str_contains s sub = (0 \<le> str_find s sub)"

text \<open>\<^verbatim>\<open>s[i:j]\<close> with Python's treatment of negative and out-of-range bounds.\<close>

definition str_slice :: "string \<Rightarrow> int \<Rightarrow> int \<Rightarrow> string" where
  "str_slice s i j =
     (let n = int (length s);
          lo = (if i < 0 then max 0 (n + i) else min i n);
          hi = (if j < 0 then max 0 (n + j) else min j n)
      in take (nat hi - nat lo) (drop (nat lo) s))"

text \<open>
  \<^verbatim>\<open>s.replace(old, new)\<close>: occurrences are replaced left to right without overlap;
  an empty \<^verbatim>\<open>old\<close> matches before every character and at the end.
\<close>

function str_replace :: "string \<Rightarrow> string \<Rightarrow> string \<Rightarrow> string" where
  "str_replace s old new =
     (case s of
        [] \<Rightarrow> (if old = [] then new else [])
      | c # cs \<Rightarrow>
          (if old = [] then new @ c # str_replace cs old new
           else if str_startswith s old then new @ str_replace (drop (length old) s) old new
           else c # str_replace cs old new))"
  by pat_completeness auto
termination
  by (relation "measure (\<lambda>(s, old, new). length s)") auto

declare str_replace.simps [simp del]

text \<open>
  \<^verbatim>\<open>s.split(sep)\<close> for a non-empty separator (every call of the source passes a literal one;
  Python raises ValueError on an empty separator). \<open>acc\<close> holds the current field reversed.
\<close>

function split_acc :: "string \<Rightarrow> string \<Rightarrow> string \<Rightarrow> string list" where
  "split_acc s sep acc =
     (case s of
        [] \<Rightarrow> [rev acc]
      | c # cs \<Rightarrow>
          (if sep \<noteq> [] \<and> str_startswith s sep
           then rev acc # split_acc (drop (length sep) s) sep []
           else split_acc cs sep (c # acc)))"
  by pat_completeness auto
termination
  by (relation "measure (\<lambda>(s, sep, acc). length s)") auto

declare split_acc.simps [simp del]

definition str_split :: "string \<Rightarrow> string \<Rightarrow> string list" where
  "str_split s sep = split_acc s sep []"

text \<open>\<^verbatim>\<open>s.strip(chars)\<close>: removes every leading and trailing character that is in \<open>chars\<close>.\<close>

definition str_strip :: "string \<Rightarrow> string \<Rightarrow> string" where
  "str_strip s chars =
     rev (dropWhile (\<lambda>c. c \<in> set chars) (rev (dropWhile (\<lambda>c. c \<in> set chars) s)))"

fun str_join :: "string \<Rightarrow> string list \<Rightarrow> string" where
  "str_join sep [] = []"
| "str_join sep [x] = x"
| "str_join sep (x # y # ys) = x @ sep @ str_join sep (y # ys)"

definition lower_char :: "char \<Rightarrow> char" where
  "lower_char c =
     (case map_of (zip ''ABCDEFGHIJKLMNOPQRSTUVWXYZ'' ''abcdefghijklmnopqrstuvwxyz'') c of
        Some d \<Rightarrow> d | None \<Rightarrow> c)"

definition str_lower :: "string \<Rightarrow> string" where
  "str_lower s = map lower_char s"

text \<open>\<^verbatim>\<open>str(n)\<close> for a natural number, as the f-strings \<^verbatim>\<open>f"E{n+1}"\<close> render it.\<close>

function str_nat :: "nat \<Rightarrow> string" where
  "str_nat n =
     (if n < 10 then [''0123456789'' ! n]
      else str_nat (n div 10) @ [''0123456789'' ! (n mod 10)])"
  by pat_completeness auto
termination
  by (relation "measure id") auto

declare str_nat.simps [simp del]

section \<open>Regular expressions of the source, matched by hand\<close>

text \<open>
  \<open>suffix_lines s\<close> lists every suffix of \<open>s\<close> by start position, grouped by the line the
  position is on (the position of a newline belongs to the line it ends). A search for
  \<^verbatim>\<open>.*X\<close> succeeds on the first line that has a position where \<^verbatim>\<open>X\<close> matches, and greedy
  \<^verbatim>\<open>.*\<close> picks the rightmost such position of that line.
\<close>

fun suffix_lines :: "string \<Rightarrow> string list list" where
  "suffix_lines [] = [[[]]]"
| "suffix_lines (c # cs) =
     (case suffix_lines cs of
        [] \<Rightarrow> [[c # cs]]
      | l # ls \<Rightarrow> if c = newline then [c # cs] # l # ls else ((c # cs) # l) # ls)"

definition rightmost :: "(string \<Rightarrow> 'a option) \<Rightarrow> string list \<Rightarrow> 'a option" where
  "rightmost m sufs = (case List.map_filter m sufs of [] \<Rightarrow> None | r # rs \<Rightarrow> Some (last (r # rs)))"

definition re_search_dotstar :: "(string \<Rightarrow> 'a option) \<Rightarrow> string \<Rightarrow> 'a option" where
  "re_search_dotstar m s =
     (case List.map_filter (rightmost m) (suffix_lines s) of [] \<Rightarrow> None | r # rs \<Rightarrow> Some r)"

fun tails :: "string \<Rightarrow> string list" where
  "tails [] = [[]]"
| "tails (c # cs) = (c # cs) # tails cs"

text \<open>\<^verbatim>\<open>re.search(X, s)\<close> for an unanchored \<^verbatim>\<open>X\<close>: the leftmost position where it matches.\<close>

definition re_search :: "(string \<Rightarrow> 'a option) \<Rightarrow> string \<Rightarrow> 'a option" where
  "re_search m s = (case List.map_filter m (tails s) of [] \<Rightarrow> None | r # rs \<Rightarrow> Some r)"

text \<open>
  \<^verbatim>\<open>re.findall\<close>: matches are collected left to right and do not overlap. The matcher
  returns the groups and the length of the match (at least one for every pattern of the
  source); \<open>skip\<close> counts the characters of the last match still to be passed over.
\<close>

fun re_findall :: "(string \<Rightarrow> ('g \<times> nat) option) \<Rightarrow> nat \<Rightarrow> string \<Rightarrow> 'g list" where
  "re_findall m skip [] = []"
| "re_findall m skip (c # cs) =
     (if 0 < skip then re_findall m (skip - 1) cs
      else (case m (c # cs) of
              Some (g, len) \<Rightarrow> g # re_findall m (len - 1) cs
            | None \<Rightarrow> re_findall m 0 cs))"

text \<open>\<^verbatim>\<open>\d\.\d+e\+\d+\<close> at the head of \<open>s\<close>; returns the matched text.\<close>

definition match_sci :: "string \<Rightarrow> string option" where
  "match_sci s =
     (case s of
        d # dot # r1 \<Rightarrow>
          (let m = takeWhile is_digit r1 in
           (case dropWhile is_digit r1 of
              ce # cp # r3 \<Rightarrow>
                (let x = takeWhile is_digit r3 in
                 if is_digit d \<and> dot = CHR ''.'' \<and> m \<noteq> [] \<and> ce = CHR ''e'' \<and> cp = CHR ''+'' \<and> x \<noteq> []
                 then Some (d # dot # m @ ce # cp # x) else None)
            | _ \<Rightarrow> None))
      | _ \<Rightarrow> None)"

text \<open>\<^verbatim>\<open>\d{1,2}\<close> followed by the character \<open>sep\<close> (not a digit); returns the rest.\<close>

definition eat_d12 :: "char \<Rightarrow> string \<Rightarrow> string option" where
  "eat_d12 sep s =
     (case s of
        a # b # r \<Rightarrow>
          (if is_digit a \<and> b = sep then Some r
           else (case r of
                   c # r' \<Rightarrow> if is_digit a \<and> is_digit b \<and> c = sep then Some r' else None
                 | [] \<Rightarrow> None))
      | _ \<Rightarrow> None)"

text \<open>\<^verbatim>\<open>(\d{4})\<close> at the head; returns the group and the rest.\<close>

definition eat_d4 :: "string \<Rightarrow> (string \<times> string) option" where
  "eat_d4 s = (if 4 \<le> length s \<and> list_all is_digit (take 4 s) then Some (take 4 s, drop 4 s) else None)"

text \<open>\<^verbatim>\<open>\d{1,2}/\d{1,2}/(\d{4}).*\<close> and \<^verbatim>\<open>\d{1,2}-\d{1,2}-(\d{4}).*\<close> at the head.\<close>

definition match_dmy :: "char \<Rightarrow> string \<Rightarrow> string option" where
  "match_dmy sep s =
     (case eat_d12 sep s of None \<Rightarrow> None
      | Some r1 \<Rightarrow> (case eat_d12 sep r1 of None \<Rightarrow> None
          | Some r2 \<Rightarrow> map_option fst (eat_d4 r2)))"

text \<open>\<^verbatim>\<open>(\d{4})-\d{1,2}-\d{1,2}.*\<close> at the head.\<close>

definition match_ymd :: "string \<Rightarrow> string option" where
  "match_ymd s =
     (case eat_d4 s of None \<Rightarrow> None
      | Some (y, r0) \<Rightarrow>
          (case r0 of
             dash # r1 \<Rightarrow>
               (case eat_d12 CHR ''-'' r1 of None \<Rightarrow> None
                | Some r2 \<Rightarrow>
                    (case r2 of d # _ \<Rightarrow> if dash = CHR ''-'' \<and> is_digit d then Some y else None
                     | [] \<Rightarrow> None))
           | [] \<Rightarrow> None))"

text \<open>\<^verbatim>\<open>^(\d{4})-.*\<close>: only position 0 is tried.\<close>

definition match_year_dash :: "string \<Rightarrow> string option" where
  "match_year_dash s =
     (case eat_d4 s of None \<Rightarrow> None
      | Some (y, r) \<Rightarrow> if str_startswith r ''-'' then Some y else None)"

text \<open>\<^verbatim>\<open>-(\d{4})$\<close> at the head: \<^verbatim>\<open>$\<close> holds at the end and before a final newline.\<close>

definition match_dash_year_end :: "string \<Rightarrow> string option" where
  "match_dash_year_end s =
     (case s of
        dash # r \<Rightarrow>
          (case eat_d4 r of None \<Rightarrow> None
           | Some (y, rest) \<Rightarrow> if dash = CHR ''-'' \<and> (rest = [] \<or> rest = [newline]) then Some y else None)
      | [] \<Rightarrow> None)"

text \<open>\<^verbatim>\<open>SELECT [\(]?([\S]+) \<close> at the head; returns group 1 and the length of the match.\<close>

definition match_select :: "string \<Rightarrow> (string \<times> nat) option" where
  "match_select s =
     (if str_startswith s ''SELECT '' then
        (let r = drop 7 s;
             run = takeWhile (\<lambda>c. \<not> is_space c) r;
             plain = (if run \<noteq> [] \<and> str_startswith (drop (length run) r) '' ''
                      then Some (run, 7 + length run + 1) else None)
         in (case r of
               [] \<Rightarrow> plain
             | c # r' \<Rightarrow>
                 (let run' = takeWhile (\<lambda>c. \<not> is_space c) r' in
                  if c = CHR ''('' \<and> run' \<noteq> [] \<and> str_startswith (drop (length run') r') '' ''
                  then Some (run', 7 + 1 + length run' + 1) else plain)))
      else None)"

text \<open>
  \<^verbatim>\<open>ORDER BY ([ASC|DESC])\((.*)\)\<close> at the head: the bracket expression is a character class,
  one character of \<^verbatim>\<open>A S C | D E\<close>; group 2 runs to the last closing parenthesis of the line.
\<close>

definition match_order :: "string \<Rightarrow> ((string \<times> string) \<times> nat) option" where
  "match_order s =
     (if str_startswith s ''ORDER BY '' then
        (case drop 9 s of
           c # paren # r \<Rightarrow>
             (let line = takeWhile (\<lambda>x. x \<noteq> newline) r;
                  g = rev (tl (dropWhile (\<lambda>x. x \<noteq> CHR '')'') (rev line)))
              in if c \<in> set ''ASC|DESC'' \<and> paren = CHR ''('' \<and> CHR '')'' \<in> set line
                 then Some (([c], g), 9 + 2 + length g + 1) else None)
         | _ \<Rightarrow> None)
      else None)"

text \<open>
  \<^verbatim>\<open>contains\((\?\w), (.+?)\)\<close> at the head: lazy group 2 takes one character (any but a
  newline) and then runs to the first closing parenthesis.
\<close>

definition match_contains :: "string \<Rightarrow> ((string \<times> string) \<times> nat) option" where
  "match_contains s =
     (if str_startswith s ''contains(?'' then
        (case drop 10 s of
           w # comma # blank # c0 # r \<Rightarrow>
             (let mid = takeWhile (\<lambda>x. x \<noteq> CHR '')'' \<and> x \<noteq> newline) r in
              if is_word w \<and> comma = CHR '','' \<and> blank = CHR '' '' \<and> c0 \<noteq> newline
                 \<and> str_startswith (drop (length mid) r) '')''
              then Some (([CHR ''?'', w], c0 # mid), 10 + 3 + 1 + length mid + 1) else None)
         | _ \<Rightarrow> None)
      else None)"

section \<open>utils.py\<close>

text \<open>
  \<open>extract_year\<close>: the three question patterns in order, the first that matches gives the
  year; when none matches, the tokens in order, each against the three token patterns,
  and the first match is returned.
\<close>

definition token_year :: "string \<Rightarrow> string option" where
  "token_year tok =
     (case re_search (\<lambda>s. map_option fst (eat_d4 s)) tok of Some y \<Rightarrow> Some y
      | None \<Rightarrow> (case match_year_dash tok of Some y \<Rightarrow> Some y
          | None \<Rightarrow> re_search_dotstar match_dash_year_end tok))"

definition extract_year :: "string list \<Rightarrow> string \<Rightarrow> string" where
  "extract_year question_tokens question =
     (case re_search_dotstar (match_dmy CHR ''/'') question of Some y \<Rightarrow> y
      | None \<Rightarrow> (case re_search_dotstar (match_dmy CHR ''-'') question of Some y \<Rightarrow> y
          | None \<Rightarrow> (case re_search_dotstar match_ymd question of Some y \<Rightarrow> y
              | None \<Rightarrow> (case List.map_filter token_year question_tokens of
                            y # _ \<Rightarrow> y | [] \<Rightarrow> []))))"

text \<open>
  The token loop of \<open>extract_number\<close>: \<^verbatim>\<open>tok[0]\<close> raises IndexError on an empty token;
  the loop stops at the first token whose first character is a digit.
\<close>

fun first_digit_token :: "string list \<Rightarrow> error + string" where
  "first_digit_token [] = Inr []"
| "first_digit_token (tok # toks) =
     (case tok of
        [] \<Rightarrow> Inl IndexError
      | c # _ \<Rightarrow> if is_digit c then Inr tok else first_digit_token toks)"

definition extract_number :: "string list \<Rightarrow> string \<Rightarrow> error + string" where
  "extract_number question_tokens question =
     bind_err (case re_search_dotstar match_sci question of
                 Some g \<Rightarrow> Inr g
               | None \<Rightarrow> first_digit_token question_tokens)
       (\<lambda>number.
          Inr (str_strip
                 (str_replace (str_replace (str_replace number ''1st'' ''1'') ''2nd'' ''2'') ''3rd'' ''3'')
                 ''.0''))"

definition asc_desc :: "string \<Rightarrow> bool" where
  "asc_desc question =
     (\<not> list_ex (\<lambda>word. str_contains (str_lower question) word)
          [''maximum'', ''highest'', ''max '', ''greatest'', ''most'', ''longest'', ''biggest'',
           ''deepest''])"

text \<open>
  \<^verbatim>\<open>itertools.permutations\<close>: every ordering of the tuple, in lexicographic order of the
  positions.
\<close>

function permutations :: "'a list \<Rightarrow> 'a list list" where
  "permutations xs =
     (if xs = [] then [[]]
      else concat (map (\<lambda>i. map ((#) (xs ! i)) (permutations (take i xs @ drop (Suc i) xs)))
                       [0..<length xs]))"
  by pat_completeness auto
termination
  by (relation "measure length") auto

declare permutations.simps [simp del]

definition rank_sum :: "('a \<times> nat) list \<Rightarrow> nat" where
  "rank_sum x = sum_list (map snd x)"

text \<open>
  \<open>make_combs\<close>: \<open>product_lists\<close> is \<^verbatim>\<open>itertools.product\<close> (the last slot varies fastest) and
  \<open>sort_key\<close> is stable, as Python's \<^verbatim>\<open>sorted\<close>.
\<close>

definition make_combs :: "string list list \<Rightarrow> bool \<Rightarrow> pyval list list" where
  "make_combs entity_ids permut =
     (let entity_ids1 = map (\<lambda>entities_list. map (\<lambda>(n, entity). (entity, n)) (enumerate 0 entities_list))
                            entity_ids;
          entity_ids2 = product_lists entity_ids1;
          entity_ids_permut = (if permut then concat (map permutations entity_ids2) else entity_ids2);
          entity_ids3 = sort_key rank_sum entity_ids_permut
      in map (\<lambda>comb. map (\<lambda>elem. VStr (fst elem)) comb @ [VInt (int (rank_sum comb))]) entity_ids3)"

definition map_query_str_to_wikidata :: "(string \<times> string) list" where
  "map_query_str_to_wikidata =
     [(''P0'', ''http://schema.org/description''),
      (''wd:'', ''http://www.wikidata.org/entity/''),
      (''wdt:'', ''http://www.wikidata.org/prop/direct/''),
      ('' p:'', '' http://www.wikidata.org/prop/''),
      (''wdt:'', ''http://www.wikidata.org/prop/direct/''),
      (''ps:'', ''http://www.wikidata.org/prop/statement/''),
      (''pq:'', ''http://www.wikidata.org/prop/qualifier/'')]"

text \<open>
  One of the three substitution loops of \<open>fill_query\<close>:
  \<^verbatim>\<open>for n, v in enumerate(vs): query = query.replace(f"{letter}{n+1}", v)\<close>.
  \<^verbatim>\<open>str.replace\<close> raises TypeError when the replacement is not a string.
\<close>

fun replace_slots :: "string \<Rightarrow> nat \<Rightarrow> pyval list \<Rightarrow> string \<Rightarrow> error + string" where
  "replace_slots letter n [] query = Inr query"
| "replace_slots letter n (v # vs) query =
     (case v of
        VStr entity \<Rightarrow> replace_slots letter (Suc n) vs (str_replace query (letter @ str_nat (n + 1)) entity)
      | VInt _ \<Rightarrow> Inl TypeError)"

definition fill_query ::
  "string list list \<Rightarrow> pyval list \<Rightarrow> pyval list \<Rightarrow> pyval list \<Rightarrow> error + string list list" where
  "fill_query query entity_comb type_comb rel_comb =
     (let query1 = str_join ''  '' (map (str_join '' '') query);
          query2 = foldl (\<lambda>q (query_str, wikidata_str). str_replace q query_str wikidata_str)
                     query1 map_query_str_to_wikidata
      in bind_err (replace_slots ''E'' 0 (butlast entity_comb) query2) (\<lambda>query3.
         bind_err (replace_slots ''T'' 0 (butlast type_comb) query3) (\<lambda>query4.
         bind_err (replace_slots ''R'' 0 (butlast rel_comb) query4) (\<lambda>query5.
           Inr (map (\<lambda>triplet. str_split triplet '' '') (str_split query5 ''  ''))))))"

section \<open>wiki\_parser.py\<close>

text \<open>
  The HDT document is an external, read-only index. \<open>search_join\<close> returns one row per
  solution, a row being the variable/value pairs that \<^verbatim>\<open>dict(comb)\<close> is built from;
  \<open>search_triples\<close> returns the matching triples and their number. The query argument
  has the type of what \<open>query_parser\<close>, the only caller in the repository, passes: a list
  of join stages, each a list of triplets.
\<close>

record hdt_document =
  search_join :: "string list list list \<Rightarrow> (string \<times> string) list list"
  search_triples :: "string \<Rightarrow> string \<Rightarrow> string \<Rightarrow> (string \<times> string \<times> string) list \<times> nat"

text \<open>
  A dict is kept as its item list and read through \<open>dict_get\<close>: the last binding of a key
  wins, as in \<^verbatim>\<open>dict(comb)\<close>; a missing key is KeyError.
\<close>

definition dict_get :: "(string \<times> string) list \<Rightarrow> string \<Rightarrow> error + string" where
  "dict_get comb key = (case map_of (rev comb) key of None \<Rightarrow> Inl KeyError | Some v \<Rightarrow> Inr v)"

definition dict_has :: "(string \<times> string) list \<Rightarrow> string \<Rightarrow> bool" where
  "dict_has comb key = (key \<in> set (map fst comb))"

text \<open>Iterating over and indexing a string or a tuple of strings.\<close>

fun obj_iter :: "pyobj \<Rightarrow> string list" where
  "obj_iter (OStr s) = map (\<lambda>c. [c]) s"
| "obj_iter (OTuple xs) = xs"

definition obj_index :: "pyobj \<Rightarrow> nat \<Rightarrow> error + string" where
  "obj_index ob i =
     (if i < length (obj_iter ob) then Inr (obj_iter ob ! i) else Inl IndexError)"

text \<open>
  Lines 43-55, entered with a non-empty \<open>unknown_query_triplets\<close> and a non-empty \<open>combs\<close>.
  \<open>known_elem\<close> is bound by the last element of the first unknown triplet that is a key
  of the first row. The loop over the rows then reads \<open>known_elem\<close> (UnboundLocalError
  when no element was a key) and, in its second statement, reads the local
  \<open>unknown_query_triplet\<close> on the right of its own first assignment, which is
  UnboundLocalError in the first iteration: the stage never completes.
\<close>

definition unknown_stage ::
  "pyobj list \<Rightarrow> (string \<times> string) list list \<Rightarrow> error + (string \<times> string) list list" where
  "unknown_stage unknown_query_triplets combs =
     (case unknown_query_triplets of
        [] \<Rightarrow> Inr combs
      | first # _ \<Rightarrow>
          (case combs of
             [] \<Rightarrow> Inr []
           | comb # _ \<Rightarrow>
               (case filter (dict_has comb) (obj_iter first) of
                  [] \<Rightarrow> Inl UnboundLocalError
                | e # es \<Rightarrow>
                    bind_err (dict_get comb (last (e # es))) (\<lambda>known_value. Inl UnboundLocalError))))"

text \<open>
  Lines 57-63: a filter entity is a string \<^verbatim>\<open>elem, value\<close> (quotes and closing parentheses
  removed); \<^verbatim>\<open>replace\<close> on a tuple is AttributeError, another number of fields than two
  is ValueError, the \<^verbatim>\<open>print\<close> of \<^verbatim>\<open>combs[0]\<close> is IndexError once no row is left.
\<close>

fun filter_stage ::
  "pyobj list \<Rightarrow> (string \<times> string) list list \<Rightarrow> error + (string \<times> string) list list" where
  "filter_stage [] combs = Inr combs"
| "filter_stage (filter_entity # rest) combs =
     (case filter_entity of
        OTuple _ \<Rightarrow> Inl AttributeError
      | OStr s \<Rightarrow>
          (case str_split (str_replace (str_replace s [CHR 0x27] []) '')'' []) '', '' of
             [filter_elem, filter_value] \<Rightarrow>
               (case combs of
                  [] \<Rightarrow> Inl IndexError
                | _ # _ \<Rightarrow>
                    bind_err (map_err (\<lambda>comb. bind_err (dict_get comb filter_elem)
                                 (\<lambda>v. Inr (comb, str_contains v filter_value))) combs)
                      (\<lambda>marked. filter_stage rest (map fst (filter snd marked))))
           | _ \<Rightarrow> Inl ValueError))"

text \<open>
  Lines 65-71. \<open>py_float\<close> stands for Python's \<^verbatim>\<open>float\<close> on a string (None: ValueError).
  \<^verbatim>\<open>sorted\<close> is stable, also with \<^verbatim>\<open>reverse=True\<close>; only the first row is kept.
\<close>

definition order_stage ::
  "(string \<Rightarrow> real option) \<Rightarrow> pyobj list \<Rightarrow> (string \<times> string) list list
     \<Rightarrow> error + (string \<times> string) list list" where
  "order_stage py_float order combs =
     (case order of
        [] \<Rightarrow> Inr combs
      | order0 # _ \<Rightarrow>
          bind_err (obj_index order0 0) (\<lambda>direction.
          bind_err (obj_index order0 1) (\<lambda>sort_elem.
            (case combs of
               [] \<Rightarrow> Inl IndexError
             | _ # _ \<Rightarrow>
                 bind_err (map_err (\<lambda>x. bind_err (dict_get x sort_elem) (\<lambda>v.
                              (case py_float (str_strip (hd (str_split v ''^^'')) [CHR 0x22]) of
                                 None \<Rightarrow> Inl ValueError
                               | Some k \<Rightarrow> Inr (k, x)))) combs)
                   (\<lambda>keyed.
                      (let sorted_combs =
                             (if direction = ''DESC''
                              then rev (map snd (sort_key fst (rev keyed)))
                              else map snd (sort_key fst keyed))
                       in Inr (take 1 sorted_combs)))))))"

text \<open>Lines 73-76: the selected values of every row, or one row with the row count.\<close>

definition return_stage ::
  "string list \<Rightarrow> (string \<times> string) list list \<Rightarrow> error + pyval list list" where
  "return_stage what_return combs =
     (case what_return of
        [] \<Rightarrow> Inl IndexError
      | _ # _ \<Rightarrow>
          (if \<not> str_startswith (last what_return) ''COUNT''
           then map_err (\<lambda>elem. map_err (\<lambda>key. bind_err (dict_get elem key) (\<lambda>v. Inr (VStr v)))
                                   what_return) combs
           else (case combs of
                   [] \<Rightarrow> Inl IndexError
                 | comb # _ \<Rightarrow>
                     bind_err (map_err (\<lambda>key. bind_err (dict_get comb key) (\<lambda>v. Inr (VStr v)))
                                 (butlast what_return))
                       (\<lambda>vs. Inr [vs @ [VInt (int (length combs))]]))))"

text \<open>\<^verbatim>\<open>WikiParser.__call__\<close>. An absent or empty optional argument skips its stage.\<close>

definition wiki_parser_call ::
  "(string \<Rightarrow> real option) \<Rightarrow> hdt_document \<Rightarrow> string list \<Rightarrow> string list list list
     \<Rightarrow> pyobj list \<Rightarrow> pyobj list option \<Rightarrow> pyobj list option \<Rightarrow> error + pyval list list" where
  "wiki_parser_call py_float document what_return query unknown_query_triplets filter_entities order =
     (case search_join document query of
        [] \<Rightarrow> Inr []
      | comb # others \<Rightarrow>
          bind_err (if unknown_query_triplets \<noteq> []
                    then unknown_stage unknown_query_triplets (comb # others)
                    else Inr (comb # others)) (\<lambda>combs1.
          bind_err (case filter_entities of
                      None \<Rightarrow> Inr combs1
                    | Some fs \<Rightarrow> filter_stage fs combs1) (\<lambda>combs2.
          bind_err (case order of
                      None \<Rightarrow> Inr combs2
                    | Some os \<Rightarrow> order_stage py_float os combs2) (\<lambda>combs3.
          return_stage what_return combs3))))"

text \<open>
  \<open>find_label\<close>, line 82, tests \<^verbatim>\<open>type(a) == str\<close>. The names bound where the body runs are
  the two parameters and the names of the module; for each, whether its value is a
  string. Reading a name that is not bound raises NameError.
\<close>

definition find_label_scope :: "(string \<times> bool) list" where
  "find_label_scope =
     [(''self'', False), (''entity'', True),
      (''List'', False), (''Optional'', False), (''Union'', False), (''Tuple'', False),
      (''re'', False), (''HDTDocument'', False), (''expand_path'', False), (''register'', False),
      (''Component'', False), (''WikiParser'', False)]"

definition entity_uri :: string where
  "entity_uri = ''http://www.wikidata.org/entity/''"

definition str_isdigit :: "string \<Rightarrow> bool" where
  "str_isdigit s = (s \<noteq> [] \<and> list_all is_digit s)"

text \<open>Lines 84-107 of \<open>find_label\<close>.\<close>

definition find_label_tail :: "hdt_document \<Rightarrow> string \<Rightarrow> string" where
  "find_label_tail document entity0 =
     (let entity = (if str_startswith entity0 ''Q'' then entity_uri @ entity0 else entity0) in
      if str_startswith entity entity_uri then
        (case filter (\<lambda>label. str_endswith (snd (snd label)) ''@en'')
                (fst (search_triples document entity ''http://www.w3.org/2000/01/rdf-schema#label'' []))
         of label # _ \<Rightarrow> str_replace (str_strip (snd (snd label)) ''@en'') [CHR 0x22] []
          | [] \<Rightarrow> ''Not Found'')
      else if str_endswith entity ''@en'' then str_replace entity ''@en'' []
      else if str_contains entity ''^^'' then
        foldl (\<lambda>e token. str_replace e token []) (hd (str_split entity ''^^'')) [''T00:00:00Z'', ''+'']
      else if str_isdigit entity then entity
      else ''Not Found'')"

definition find_label :: "hdt_document \<Rightarrow> string \<Rightarrow> error + string" where
  "find_label document entity =
     (case map_of find_label_scope ''a'' of
        None \<Rightarrow> Inl NameError
      | Some is_str \<Rightarrow>
          Inr (find_label_tail document (if is_str then str_replace entity [CHR 0x22] [] else entity)))"

definition find_alias :: "hdt_document \<Rightarrow> string \<Rightarrow> string list" where
  "find_alias document entity =
     (if str_startswith entity entity_uri
      then map (\<lambda>label. str_strip (str_strip (snd (snd label)) ''@en'') [CHR 0x22])
             (filter (\<lambda>label. str_endswith (snd (snd label)) ''@en'')
                (fst (search_triples document entity ''http://www.w3.org/2004/02/skos/core#altLabel'' [])))
      else [])"

definition find_rels :: "hdt_document \<Rightarrow> string \<Rightarrow> string \<Rightarrow> string option \<Rightarrow> string list" where
  "find_rels document entity direction rel_type =
     (let triplets = (if direction = ''forw''
                      then fst (search_triples document (entity_uri @ entity) [] [])
                      else fst (search_triples document [] [] (entity_uri @ entity)));
          start_str = (case rel_type of
                         Some rt \<Rightarrow> ''http://www.wikidata.org/prop/'' @ rt
                       | None \<Rightarrow> ''http://www.wikidata.org/prop/P'')
      in map (\<lambda>triplet. fst (snd triplet))
           (filter (\<lambda>triplet. str_startswith (fst (snd triplet)) start_str) triplets))"

section \<open>query\_generator.py\<close>

text \<open>
  A template record of the template file. \<open>alternative_templates\<close> is optional (None:
  the key is absent, reading it is KeyError).
\<close>

datatype template = Template
  (query_template: string)
  (rank_rels: "int list")
  (query_sequence: "int list")
  (return_if_found: bool)
  (entities_and_types_num: "int list")
  (rel_dirs: "string list")
  (alternative_templates: "template list option")

text \<open>
  The attributes of a \<open>QueryGenerator\<close> that the modelled methods read, and the library
  functions they call: \<open>word_tokenize\<close> is \<^verbatim>\<open>nltk.word_tokenize\<close>, \<open>list_of_set\<close> is
  \<^verbatim>\<open>list(set(xs))\<close> (the distinct elements, in an order Python does not specify) and
  \<open>py_float\<close> is \<^verbatim>\<open>float\<close>. \<open>rank_rels_of\<close> is \<^verbatim>\<open>rel_ranker.rank_rels\<close>; the linkers return the
  ranked identifiers and their confidences.
\<close>

record query_generator =
  linker_entities :: "string \<Rightarrow> string list \<times> real list"
  linker_types :: "string \<Rightarrow> string list \<times> real list"
  wiki_parser :: hdt_document
  rank_rels_of :: "string \<Rightarrow> string list \<Rightarrow> (string \<times> real) list"
  rank_list_0 :: "string list"
  rank_list_1 :: "string list"
  template_queries :: "string \<Rightarrow> template list option"
  entities_to_leave :: nat
  rels_to_leave :: nat
  rels_to_leave_2hop :: nat
  word_tokenize :: "string \<Rightarrow> string list"
  list_of_set :: "string list \<Rightarrow> string list"
  py_float :: "string \<Rightarrow> real option"

text \<open>
  \<open>get_entity_ids\<close>: when \<open>what_to_link\<close> is neither string, \<open>entity_id\<close> is read unbound in
  the first iteration.
\<close>

fun get_entity_ids :: "query_generator \<Rightarrow> string list \<Rightarrow> string \<Rightarrow> error + string list list" where
  "get_entity_ids self [] what_to_link = Inr []"
| "get_entity_ids self (entity # entities) what_to_link =
     (if what_to_link = ''entities'' \<or> what_to_link = ''types''
      then (let entity_id = (if what_to_link = ''types'' then fst (linker_types self entity)
                             else fst (linker_entities self entity))
            in bind_err (get_entity_ids self entities what_to_link)
                 (\<lambda>entity_ids. Inr (take 15 entity_id # entity_ids)))
      else Inl UnboundLocalError)"

definition find_top_rels ::
  "query_generator \<Rightarrow> string \<Rightarrow> string list list \<Rightarrow> string \<times> int \<Rightarrow> string list" where
  "find_top_rels self question entity_ids triplet_direction =
     (let ex_rels1 =
            (if snd triplet_direction = 1
             then map (\<lambda>rel. last (str_split rel ''/''))
                    (list_of_set self
                       (concat (map (\<lambda>entity_id.
                          concat (map (\<lambda>entity. find_rels (wiki_parser self) entity (fst triplet_direction) None)
                                      (take (entities_to_leave self) entity_id)))
                          entity_ids)))
             else []);
          ex_rels2 = (if snd triplet_direction = 2 then rank_list_0 self else ex_rels1);
          ex_rels3 = (if snd triplet_direction = 3 then rank_list_1 self else ex_rels2)
      in map fst (rank_rels_of self question ex_rels3))"

text \<open>
  What \<open>query_parser\<close> has computed when its loop starts (lines 204-260): the arguments of
  the store adapter and the combinations in the order of \<^verbatim>\<open>itertools.product\<close>.
\<close>

record parsed_query =
  what_return_of :: "string list"
  query_sequence_of :: "string list list list"
  filter_from_query_of :: "pyobj list"
  order_from_query_of :: "pyobj list"
  combs_of :: "(pyval list \<times> pyval list \<times> pyval list) list"

text \<open>The two rewrites of \<open>filter_from_query\<close> (lines 251-258) for one placeholder.\<close>

definition substitute_filter :: "string \<Rightarrow> string \<Rightarrow> pyobj list \<Rightarrow> error + pyobj list" where
  "substitute_filter placeholder val filter_from_query =
     (if val \<noteq> []
      then map_err (\<lambda>elem. bind_err (obj_index elem 1)
                      (\<lambda>e1. Inr (OStr (str_replace e1 placeholder val)))) filter_from_query
      else bind_err (map_err (\<lambda>elem. bind_err (obj_index elem 1) (\<lambda>e1. Inr (elem, e1 \<noteq> placeholder)))
                       filter_from_query)
             (\<lambda>marked. Inr (map fst (filter snd marked))))"

text \<open>Lines 212-214: the triplets between the braces of the query string.\<close>

definition query_triplets_of :: "string \<Rightarrow> string list list" where
  "query_triplets_of query =
     map (\<lambda>triplet. take 3 (str_split triplet '' ''))
       (str_split (str_strip (str_slice query (str_find query ''{'' + 1) (str_find query ''}'')) '' '')
          '' . '')"

text \<open>Lines 215-217: the join stages; \<^verbatim>\<open>max\<close> of an empty list is ValueError.\<close>

definition query_stages :: "int list \<Rightarrow> string list list \<Rightarrow> error + string list list list" where
  "query_stages query_seq_num query_triplets =
     (if query_seq_num = [] then Inl ValueError
      else Inr (map (\<lambda>i. map snd (filter (\<lambda>(num, triplet). num = i) (zip query_seq_num query_triplets)))
                  [1..Max (set query_seq_num)]))"

text \<open>Lines 219-220: \<^verbatim>\<open>triplet[2]\<close> is IndexError on a triplet of fewer than three elements.\<close>

definition rel_directions_of :: "int list \<Rightarrow> string list list \<Rightarrow> error + (string \<times> int) list" where
  "rel_directions_of rels_for_search query_triplets =
     map_err (\<lambda>(search_or_not, triplet).
                if 2 < length triplet
                then Inr (if str_startswith (triplet ! 2) ''?'' then ''forw'' else ''backw'', search_or_not)
                else Inl IndexError)
       (filter (\<lambda>(search_or_not, triplet). search_or_not \<noteq> 0) (zip rels_for_search query_triplets))"

text \<open>Line 238.\<close>

definition rels_from_query_of :: "string list list \<Rightarrow> error + string list" where
  "rels_from_query_of query_triplets =
     bind_err (map_err (\<lambda>triplet. if 1 < length triplet then Inr (triplet ! 1) else Inl IndexError)
                 query_triplets)
       (\<lambda>predicates. Inr (filter (\<lambda>p. str_startswith p ''?'') predicates))"

text \<open>Lines 240-244.\<close>

definition order_from_query_for :: "string \<Rightarrow> string \<Rightarrow> pyobj list" where
  "order_from_query_for question query =
     map (\<lambda>elem. OTuple [if asc_desc question then fst elem else ''DESC'', snd elem])
       (re_findall match_order 0 query)"

text \<open>Lines 246-258.\<close>

definition filter_from_query_for :: "string list \<Rightarrow> string \<Rightarrow> string \<Rightarrow> error + pyobj list" where
  "filter_from_query_for question_tokens question query =
     bind_err (extract_number question_tokens question) (\<lambda>number.
     bind_err (substitute_filter ''YEAR'' (extract_year question_tokens question)
                 (map (\<lambda>elem. OTuple [fst elem, snd elem]) (re_findall match_contains 0 query)))
       (\<lambda>filter1. substitute_filter ''NUMBER'' number filter1))"

text \<open>\<^verbatim>\<open>itertools.product\<close> of the three lists of combinations.\<close>

definition product3 :: "'a list \<Rightarrow> 'b list \<Rightarrow> 'c list \<Rightarrow> ('a \<times> 'b \<times> 'c) list" where
  "product3 xs ys zs = concat (map (\<lambda>x. concat (map (\<lambda>y. map (\<lambda>z. (x, y, z)) zs) ys)) xs)"

definition query_parser_setup ::
  "query_generator \<Rightarrow> string \<Rightarrow> template \<Rightarrow> string list list \<Rightarrow> string list list
     \<Rightarrow> string list list option \<Rightarrow> error + parsed_query" where
  "query_parser_setup self question query_info entity_ids type_ids rels_from_template =
     (let question_tokens = word_tokenize self question;
          query = query_template query_info;
          query_triplets = query_triplets_of query
      in bind_err (query_stages (query_sequence query_info) query_triplets) (\<lambda>stages.
         bind_err (rel_directions_of (rank_rels query_info) query_triplets) (\<lambda>rel_directions.
         bind_err (rels_from_query_of query_triplets) (\<lambda>rels_from_query.
         bind_err (filter_from_query_for question_tokens question query) (\<lambda>filter_from_query.
           Inr \<lparr> what_return_of = rels_from_query @ re_findall match_select 0 query,
                 query_sequence_of = stages,
                 filter_from_query_of = filter_from_query,
                 order_from_query_of = order_from_query_for question query,
                 combs_of =
                   product3 (make_combs entity_ids True) (make_combs type_ids False)
                     (make_combs (case rels_from_template of
                                    Some rels \<Rightarrow> rels
                                  | None \<Rightarrow> map (find_top_rels self question entity_ids) rel_directions)
                        False) \<rparr>)))))"

text \<open>
  The loop of \<open>query_parser\<close> (lines 263-270). The store adapter is called with four
  positional arguments: the filter clauses arrive as \<open>unknown_query_triplets\<close>, the order
  clauses as \<open>filter_entities\<close>, and \<open>order\<close> keeps its default. \<open>calls\<close> records the query of
  every call of the adapter, in order.
\<close>

fun query_parser_loop ::
  "query_generator \<Rightarrow> bool \<Rightarrow> parsed_query \<Rightarrow> pyval list list \<Rightarrow> string list list list list
     \<Rightarrow> (pyval list \<times> pyval list \<times> pyval list) list
     \<Rightarrow> (error + pyval list list) \<times> string list list list list" where
  "query_parser_loop self rif pq candidate_outputs calls [] = (Inr candidate_outputs, calls)"
| "query_parser_loop self rif pq candidate_outputs calls (combs # rest) =
     (case map_err (\<lambda>query_hdt_elem. fill_query query_hdt_elem (fst combs) (fst (snd combs)) (snd (snd combs)))
             (query_sequence_of pq) of
        Inl e \<Rightarrow> (Inl e, calls)
      | Inr query_hdt_seq \<Rightarrow>
          (case wiki_parser_call (py_float self) (wiki_parser self) (what_return_of pq) query_hdt_seq
                  (filter_from_query_of pq) (Some (order_from_query_of pq)) None of
             Inl e \<Rightarrow> (Inl e, calls @ [query_hdt_seq])
           | Inr candidate_output \<Rightarrow>
               (let candidate_outputs' =
                      candidate_outputs @ map (\<lambda>output. butlast (snd (snd combs)) @ output) candidate_output
                in if rif \<and> candidate_output \<noteq> []
                   then (Inr candidate_outputs', calls @ [query_hdt_seq])
                   else query_parser_loop self rif pq candidate_outputs' (calls @ [query_hdt_seq]) rest)))"

definition query_parser_traced ::
  "query_generator \<Rightarrow> string \<Rightarrow> template \<Rightarrow> string list list \<Rightarrow> string list list
     \<Rightarrow> string list list option \<Rightarrow> (error + pyval list list) \<times> string list list list list" where
  "query_parser_traced self question query_info entity_ids type_ids rels_from_template =
     (case query_parser_setup self question query_info entity_ids type_ids rels_from_template of
        Inl e \<Rightarrow> (Inl e, [])
      | Inr pq \<Rightarrow> query_parser_loop self (return_if_found query_info) pq [] [] (combs_of pq))"

definition query_parser ::
  "query_generator \<Rightarrow> string \<Rightarrow> template \<Rightarrow> string list list \<Rightarrow> string list list
     \<Rightarrow> string list list option \<Rightarrow> error + pyval list list" where
  "query_parser self question query_info entity_ids type_ids rels_from_template =
     fst (query_parser_traced self question query_info entity_ids type_ids rels_from_template)"

text \<open>
  The loop over the primary templates (lines 187-190): the output of the first template
  whose output is not empty is returned; None when the loop ends without a return.
\<close>

fun first_nonempty ::
  "(template \<Rightarrow> error + pyval list list) \<Rightarrow> template list \<Rightarrow> error + pyval list list option" where
  "first_nonempty parse [] = Inr None"
| "first_nonempty parse (t # ts) =
     bind_err (parse t) (\<lambda>candidate_outputs.
       if candidate_outputs \<noteq> [] then Inr (Some candidate_outputs) else first_nonempty parse ts)"

text \<open>\<open>template_num\<close> is the attribute \<^verbatim>\<open>self.template_num\<close> that \<^verbatim>\<open>__call__\<close> sets before the call.\<close>

definition find_candidate_answers ::
  "query_generator \<Rightarrow> string \<Rightarrow> string \<Rightarrow> string list list \<Rightarrow> string list list
     \<Rightarrow> string list list option \<Rightarrow> string list option \<Rightarrow> error + pyval list list" where
  "find_candidate_answers self template_num question entity_ids type_ids rels_from_template
       rel_dirs_from_template =
     (case template_queries self template_num of
        None \<Rightarrow> Inl KeyError
      | Some all_templates \<Rightarrow>
          (let templates = filter (\<lambda>t. entities_and_types_num t
                                        = [int (length entity_ids), int (length type_ids)]) all_templates;
               parse = (\<lambda>t. query_parser self question t entity_ids type_ids rels_from_template)
           in (case rels_from_template of
                 Some _ \<Rightarrow>
                   (case foldl (\<lambda>chosen t.
                                  if Some (rel_dirs t) = rel_dirs_from_template then Some t
                                  else chosen) None templates of
                      None \<Rightarrow> Inr []
                    | Some chosen \<Rightarrow> parse chosen)
               | None \<Rightarrow>
                   bind_err (first_nonempty parse templates) (\<lambda>found.
                     (case found of
                        Some candidate_outputs \<Rightarrow> Inr candidate_outputs
                      | None \<Rightarrow>
                          (case templates of
                             [] \<Rightarrow> Inl IndexError
                           | t0 # _ \<Rightarrow>
                               (case alternative_templates t0 of
                                  None \<Rightarrow> Inl KeyError
                                | Some [] \<Rightarrow> Inr []
                                | Some (alt # _) \<Rightarrow> parse alt)))))))"

section \<open>Specification vocabulary and example inputs\<close>

text \<open>
  \<open>picks entity_ids ch\<close>: the tuple \<open>ch\<close> has, for every slot, a candidate of the slot's list
  together with its 0-based position in that list. \<open>render\<close> is the list that
  \<open>make_combs\<close> returns for a tuple: the identifiers, then the sum of the ranks.
\<close>

definition picks :: "string list list \<Rightarrow> (string \<times> nat) list \<Rightarrow> bool" where
  "picks entity_ids ch =
     list_all2 (\<lambda>elem l. snd elem < length l \<and> l ! snd elem = fst elem) ch entity_ids"

definition render :: "(string \<times> nat) list \<Rightarrow> pyval list" where
  "render comb = map (\<lambda>elem. VStr (fst elem)) comb @ [VInt (int (rank_sum comb))]"

text \<open>A document with no triples.\<close>

definition empty_document :: hdt_document where
  "empty_document = \<lparr> search_join = (\<lambda>query. []), search_triples = (\<lambda>s p ob. ([], 0)) \<rparr>"

text \<open>
  A generator whose entity linker returns twenty candidates \<^verbatim>\<open>Q1 .. Q20\<close> for every
  mention and whose other collaborators return nothing.
\<close>

definition demo_generator :: query_generator where
  "demo_generator =
     \<lparr> linker_entities = (\<lambda>mention. (map (\<lambda>n. CHR ''Q'' # str_nat n) [1..<21], [])),
       linker_types = (\<lambda>mention. ([], [])),
       wiki_parser = empty_document,
       rank_rels_of = (\<lambda>question rels. []),
       rank_list_0 = [],
       rank_list_1 = [],
       template_queries = (\<lambda>key. None),
       entities_to_leave = 5,
       rels_to_leave = 10,
       rels_to_leave_2hop = 7,
       word_tokenize = (\<lambda>question. str_split question '' ''),
       list_of_set = remdups,
       py_float = (\<lambda>s. None) \<rparr>"

text \<open>
  The one-template knowledge base of the end-to-end example: the template with the triple
  pattern \<^verbatim>\<open>?ent P31 T1 . ?ent R1 E1\<close>, and a document whose join answers the filled query
  with the single row \<^verbatim>\<open>?ent = Q7\<close> and that holds one triple with the object \<^verbatim>\<open>Q1\<close>.
\<close>

definition one_query :: string where
  "one_query = ''SELECT ?ent WHERE { ?ent P31 T1 . ?ent R1 E1 }''"

definition one_template :: template where
  "one_template =
     Template one_query [0, 1] [1, 1] True [1, 1] [''backw''] (Some [])"

definition kb_document :: hdt_document where
  "kb_document =
     \<lparr> search_join = (\<lambda>query. if query = [[[''?ent'', ''P31'', ''T5''], [''?ent'', ''P100'', ''Q1'']]]
                               then [[(''?ent'', ''Q7'')]] else []),
       search_triples = (\<lambda>s p ob.
          if s = [] \<and> p = [] \<and> ob = entity_uri @ ''Q1''
          then ([(entity_uri @ ''Q7'', ''http://www.wikidata.org/prop/P100'', entity_uri @ ''Q1'')], 1)
          else ([], 0)) \<rparr>"

text \<open>
  A second template, whose filled query the document answers with no row, with a chosen
  list of alternatives; and a generator over the document that knows the two templates
  under the template numbers 7 and 8.
\<close>

definition sub_query :: string where
  "sub_query = ''SELECT ?ent WHERE { ?ent P279 T1 . ?ent R1 E1 }''"

definition sub_template :: "template list option \<Rightarrow> template" where
  "sub_template alts = Template sub_query [0, 1] [1, 1] True [1, 1] [''forw''] alts"

definition kb_generator :: query_generator where
  "kb_generator =
     \<lparr> linker_entities = (\<lambda>mention. ([], [])),
       linker_types = (\<lambda>mention. ([], [])),
       wiki_parser = kb_document,
       rank_rels_of = (\<lambda>question rels. map (\<lambda>r. (r, 1)) rels),
       rank_list_0 = [],
       rank_list_1 = [],
       template_queries = (\<lambda>key.
          if key = ''7'' then Some [sub_template (Some []), one_template]
          else if key = ''8'' then Some [sub_template (Some [sub_template None, one_template])]
          else None),
       entities_to_leave = 5,
       rels_to_leave = 10,
       rels_to_leave_2hop = 7,
       word_tokenize = (\<lambda>question. str_split question '' ''),
       list_of_set = remdups,
       py_float = (\<lambda>s. None) \<rparr>"

text \<open>
  The aggregate rank of a combination is its trailing element; \<open>total_rank\<close> adds the ranks
  of the entity, type and relation combination that \<open>query_parser\<close> tries together.
\<close>

definition comb_rank :: "pyval list \<Rightarrow> int" where
  "comb_rank comb = (case last comb of VInt n \<Rightarrow> n | VStr _ \<Rightarrow> 0)"

definition total_rank :: "pyval list \<times> pyval list \<times> pyval list \<Rightarrow> int" where
  "total_rank combs = comb_rank (fst combs) + comb_rank (fst (snd combs)) + comb_rank (snd (snd combs))"

text \<open>
  The templates whose \<^verbatim>\<open>entities_and_types_num\<close> is the number of entity and type mentions:
  the filter at the head of \<open>find_candidate_answers\<close>.
\<close>

definition slot_matching :: "string list list \<Rightarrow> string list list \<Rightarrow> template list \<Rightarrow> template list" where
  "slot_matching entity_ids type_ids all_templates =
     filter (\<lambda>t. entities_and_types_num t = [int (length entity_ids), int (length type_ids)]) all_templates"

subsection \<open>Placeholders of a template and the round trip through \<open>fill_query\<close>\<close>

text \<open>
  The placeholder of slot \<open>n\<close> (0-based) of a kind is the letter followed by \<open>n + 1\<close>
  (\<^verbatim>\<open>f"E{n+1}"\<close>); \<open>slot_table\<close> pairs every placeholder of a binding combination with the
  identifier bound to it.
\<close>

definition slot_token :: "string \<Rightarrow> nat \<Rightarrow> string" where
  "slot_token letter n = letter @ str_nat (n + 1)"

definition slot_table :: "string list \<Rightarrow> string list \<Rightarrow> string list \<Rightarrow> (string \<times> string) list" where
  "slot_table es ts rs =
     zip (map (slot_token ''E'') [0..<length es]) es
     @ zip (map (slot_token ''T'') [0..<length ts]) ts
     @ zip (map (slot_token ''R'') [0..<length rs]) rs"

text \<open>
  A placeholder stands in a template either bare or behind one of the namespace prefixes
  that \<open>fill_query\<close> expands; the pairs give the prefix and the address it expands to.
\<close>

definition namespaces :: "(string \<times> string) list" where
  "namespaces =
     [([], []),
      (''wd:'', ''http://www.wikidata.org/entity/''),
      (''wdt:'', ''http://www.wikidata.org/prop/direct/''),
      (''p:'', ''http://www.wikidata.org/prop/''),
      (''ps:'', ''http://www.wikidata.org/prop/statement/''),
      (''pq:'', ''http://www.wikidata.org/prop/qualifier/'')]"

text \<open>
  \<open>filled_slot tab ns tok\<close>: when the element \<open>tok\<close> of a template is a placeholder of the
  table \<open>tab\<close> behind a prefix of \<open>ns\<close>, the element that the filled query is to hold at this
  position: the expanded prefix followed by the identifier bound to the placeholder.
\<close>

fun filled_slot :: "(string \<times> string) list \<Rightarrow> (string \<times> string) list \<Rightarrow> string \<Rightarrow> string option" where
  "filled_slot tab [] tok = None"
| "filled_slot tab ((pre, uri) # ns) tok =
     (case (if str_startswith tok pre then map_of tab (drop (length pre) tok) else None) of
        Some v \<Rightarrow> Some (uri @ v)
      | None \<Rightarrow> filled_slot tab ns tok)"

text \<open>A triple of a template: at least one element, every element non-empty and free of spaces.\<close>

definition row_ok :: "string list \<Rightarrow> bool" where
  "row_ok row = (row \<noteq> [] \<and> (\<forall>t\<in>set row. t \<noteq> [] \<and> CHR '' '' \<notin> set t))"

text \<open>
  An identifier that the later substitutions leave alone: non-empty, free of spaces, and
  containing no placeholder of the combination.
\<close>

definition clean_value :: "string list \<Rightarrow> string list \<Rightarrow> string list \<Rightarrow> string \<Rightarrow> bool" where
  "clean_value es ts rs v =
     (v \<noteq> [] \<and> CHR '' '' \<notin> set v \<and> (\<forall>p\<in>set (map fst (slot_table es ts rs)). \<not> str_contains v p))"

text \<open>
  The round trip: \<open>fill_query\<close> returns a query of the shape of the template, and reading the
  filled query at every position where the template has a placeholder gives the identifier
  that the combination binds to this placeholder, behind the expanded prefix. A combination
  is a pair of the identifiers and the rank that \<open>make_combs\<close> appends.
\<close>

definition round_trip ::
  "string list list \<Rightarrow> string list \<times> int \<Rightarrow> string list \<times> int \<Rightarrow> string list \<times> int \<Rightarrow> bool" where
  "round_trip query ec tc rc =
     (case fill_query query (map VStr (fst ec) @ [VInt (snd ec)]) (map VStr (fst tc) @ [VInt (snd tc)])
             (map VStr (fst rc) @ [VInt (snd rc)]) of
        Inl e \<Rightarrow> False
      | Inr filled \<Rightarrow>
          list_all2 (list_all2 (\<lambda>tok ftok.
                       case filled_slot (slot_table (fst ec) (fst tc) (fst rc)) namespaces tok of
                         None \<Rightarrow> True
                       | Some v \<Rightarrow> ftok = v))
            query filled)"

subsection \<open>\<open>fill_query\<close> element by element\<close>

text \<open>
  A function on query strings acts element by element when it maps the empty string to
  itself and distributes over the separating space.
\<close>

definition spacewise :: "(string \<Rightarrow> string) \<Rightarrow> bool" where
  "spacewise f = (f [] = [] \<and> (\<forall>a b. f (a @ CHR '' '' # b) = f a @ CHR '' '' # f b))"

text \<open>
  \<open>replace_slots\<close> on a combination whose members are all strings: the loop
  \<^verbatim>\<open>for n, v in enumerate(vs): query = query.replace(f"{letter}{n+1}", v)\<close> without the error
  branch. \<open>fill_token\<close> is the three loops of \<open>fill_query\<close> in their order.
\<close>

fun subst_slots :: "string \<Rightarrow> nat \<Rightarrow> string list \<Rightarrow> string \<Rightarrow> string" where
  "subst_slots letter n [] query = query"
| "subst_slots letter n (v # vs) query =
     subst_slots letter (Suc n) vs (str_replace query (letter @ str_nat (n + 1)) v)"

definition fill_token :: "string list \<Rightarrow> string list \<Rightarrow> string list \<Rightarrow> string \<Rightarrow> string" where
  "fill_token es ts rs tok = subst_slots ''R'' 0 rs (subst_slots ''T'' 0 ts (subst_slots ''E'' 0 es tok))"

text \<open>
  The seven prefix replacements of \<open>fill_query\<close> in their order: \<open>expand_head\<close> is the first
  three, \<open>prop_step\<close> the fourth, whose pattern begins with a space, and \<open>expand_tail\<close> the
  last three. \<open>after_space\<close> is what \<open>prop_step\<close> does to a string that follows a space, and
  \<open>prop_token\<close> what it does to one element that follows a space.
\<close>

definition expand_head :: "string \<Rightarrow> string" where
  "expand_head s =
     str_replace (str_replace (str_replace s ''P0'' ''http://schema.org/description'')
                    ''wd:'' ''http://www.wikidata.org/entity/'')
       ''wdt:'' ''http://www.wikidata.org/prop/direct/''"

definition prop_step :: "string \<Rightarrow> string" where
  "prop_step s = str_replace s '' p:'' '' http://www.wikidata.org/prop/''"

definition after_space :: "string \<Rightarrow> string" where
  "after_space s = tl (prop_step (CHR '' '' # s))"

definition prop_token :: "string \<Rightarrow> string" where
  "prop_token t = (if str_startswith t ''p:'' then ''http://www.wikidata.org/prop/'' @ drop 2 t else t)"

definition expand_tail :: "string \<Rightarrow> string" where
  "expand_tail s =
     str_replace (str_replace (str_replace s ''wdt:'' ''http://www.wikidata.org/prop/direct/'')
                    ''ps:'' ''http://www.wikidata.org/prop/statement/'')
       ''pq:'' ''http://www.wikidata.org/prop/qualifier/''"

text \<open>What \<open>fill_query\<close> makes of one element of a template that is not the very first.\<close>

definition expand_token :: "string \<Rightarrow> string" where
  "expand_token t = expand_tail (prop_token (expand_head t))"

definition fill_element :: "string list \<Rightarrow> string list \<Rightarrow> string list \<Rightarrow> string \<Rightarrow> string" where
  "fill_element es ts rs t = fill_token es ts rs (expand_token t)"

section \<open>Properties\<close>

lemma permutations_mset: "ys \<in> set (permutations xs) \<Longrightarrow> mset ys = mset xs"
proof (induction xs arbitrary: ys rule: permutations.induct)
  case (1 xs)
  show ?case
  proof (cases "xs = []")
    case True
    with "1.prems" show ?thesis by (simp add: permutations.simps)
  next
    case False
    with "1.prems" obtain i zs where i: "i < length xs"
      and zs: "zs \<in> set (permutations (take i xs @ drop (Suc i) xs))"
      and ys: "ys = xs ! i # zs"
      by (subst (asm) permutations.simps) auto
    from "1.IH"[OF False _ zs] i have "mset zs = mset (take i xs @ drop (Suc i) xs)" by simp
    moreover have "mset xs = add_mset (xs ! i) (mset (take i xs @ drop (Suc i) xs))"
    proof -
      have "mset xs = mset (take i xs @ xs ! i # drop (Suc i) xs)"
        by (rule arg_cong [OF id_take_nth_drop [OF i]])
      then show ?thesis by simp
    qed
    ultimately show ?thesis using ys by simp
  qed
qed

lemma ranked_picks:
  "ch \<in> set (product_lists (map (\<lambda>entities_list. map (\<lambda>(n, entity). (entity, n)) (enumerate 0 entities_list)) entity_ids))
   \<Longrightarrow> picks entity_ids ch"
  unfolding picks_def product_lists_set
  by (auto simp: list_all2_map2 enumerate_eq_zip in_set_zip elim!: list_all2_mono)

lemma make_combs_render:
  "make_combs entity_ids permut = map render
     (sort_key rank_sum (if permut
        then concat (map permutations (product_lists (map (\<lambda>entities_list. map (\<lambda>(n, entity). (entity, n)) (enumerate 0 entities_list)) entity_ids)))
        else product_lists (map (\<lambda>entities_list. map (\<lambda>(n, entity). (entity, n)) (enumerate 0 entities_list)) entity_ids)))"
  by (simp add: make_combs_def Let_def render_def cong: map_cong)

text \<open>
  C6. For every list of per-slot candidate lists and either value of \<open>permut\<close>, every
  combination returned by \<open>make_combs\<close> is the list of the identifiers of a tuple of
  ranked candidates (one candidate of every slot, at its 0-based position; reordered
  when \<open>permut\<close> is set) followed by the sum of the ranks as its single last element, and
  the combinations are in non-decreasing order of that sum.
\<close>

theorem make_combs_ranked_sorted:
  "\<exists>tuples. make_combs entity_ids permut = map render tuples
      \<and> sorted (map rank_sum tuples)
      \<and> (\<forall>t \<in> set tuples. \<exists>ch. picks entity_ids ch \<and> (if permut then mset t = mset ch else t = ch))"
proof -
  let ?prod = "product_lists (map (\<lambda>entities_list. map (\<lambda>(n, entity). (entity, n)) (enumerate 0 entities_list)) entity_ids)"
  let ?all = "if permut then concat (map permutations ?prod) else ?prod"
  let ?tuples = "sort_key rank_sum ?all"
  have "make_combs entity_ids permut = map render ?tuples" by (rule make_combs_render)
  moreover have "sorted (map rank_sum ?tuples)" by (rule sorted_sort_key)
  moreover have "\<exists>ch. picks entity_ids ch \<and> (if permut then mset t = mset ch else t = ch)"
    if "t \<in> set ?tuples" for t
  proof (cases permut)
    case True
    with that obtain ch where "ch \<in> set ?prod" "t \<in> set (permutations ch)" by auto
    then show ?thesis using True by (auto dest: ranked_picks permutations_mset)
  next
    case False
    with that show ?thesis by (auto dest: ranked_picks)
  qed
  ultimately show ?thesis by blast
qed

theorem make_combs_ranked_sorted_witness:
  "make_combs [[''Q1'', ''Q2''], [''Q3'']] True =
     [[VStr ''Q1'', VStr ''Q3'', VInt 0], [VStr ''Q3'', VStr ''Q1'', VInt 0],
      [VStr ''Q2'', VStr ''Q3'', VInt 1], [VStr ''Q3'', VStr ''Q2'', VInt 1]]
   \<and> (\<exists>tuples. make_combs [[''Q1'', ''Q2''], [''Q3'']] True = map render tuples
      \<and> sorted (map rank_sum tuples))"
proof -
  have e: "make_combs [[''Q1'', ''Q2''], [''Q3'']] True =
     [[VStr ''Q1'', VStr ''Q3'', VInt 0], [VStr ''Q3'', VStr ''Q1'', VInt 0],
      [VStr ''Q2'', VStr ''Q3'', VInt 1], [VStr ''Q3'', VStr ''Q2'', VInt 1]]"
    by code_simp
  show ?thesis
    using make_combs_ranked_sorted [of "[[''Q1'', ''Q2''], [''Q3'']]" True] e by blast
qed

lemma get_entity_ids_valid:
  "what_to_link = ''entities'' \<or> what_to_link = ''types'' \<Longrightarrow>
   get_entity_ids self entities what_to_link =
     Inr (map (\<lambda>entity. take 15 (fst ((if what_to_link = ''types'' then linker_types self
                                         else linker_entities self) entity))) entities)"
  by (induction entities) (auto simp: bind_err_def)

text \<open>
  C9. For every list of mentions, linked as entities or as types, \<open>get_entity_ids\<close>
  returns for each mention the ranked identifiers of the linker cut to the first 15:
  no list is longer than 15, and the result is the same for every value of the
  \<open>entities_to_leave\<close> parameter.
\<close>

theorem get_entity_ids_first_15:
  assumes "what_to_link = ''entities'' \<or> what_to_link = ''types''"
  shows "get_entity_ids (self\<lparr>entities_to_leave := k\<rparr>) entities what_to_link =
           Inr (map (\<lambda>entity. take 15 (fst ((if what_to_link = ''types'' then linker_types self
                                               else linker_entities self) entity))) entities)
         \<and> list_all (\<lambda>ids. length ids \<le> 15)
             (map (\<lambda>entity. take 15 (fst ((if what_to_link = ''types'' then linker_types self
                                             else linker_entities self) entity))) entities)"
proof
  show "get_entity_ids (self\<lparr>entities_to_leave := k\<rparr>) entities what_to_link =
           Inr (map (\<lambda>entity. take 15 (fst ((if what_to_link = ''types'' then linker_types self
                                               else linker_entities self) entity))) entities)"
    using get_entity_ids_valid [OF assms, of "self\<lparr>entities_to_leave := k\<rparr>" entities] by simp
  show "list_all (\<lambda>ids. length ids \<le> 15)
             (map (\<lambda>entity. take 15 (fst ((if what_to_link = ''types'' then linker_types self
                                             else linker_entities self) entity))) entities)"
    by (simp add: list_all_iff)
qed

lemma demo_generator_entities:
  "get_entity_ids (demo_generator\<lparr>entities_to_leave := 2\<rparr>) [''Berlin''] ''entities'' =
     Inr [map (\<lambda>n. CHR ''Q'' # str_nat n) [1..<16]]"
proof -
  have "take 15 (map (\<lambda>n. CHR ''Q'' # str_nat n) [1..<21]) = map (\<lambda>n. CHR ''Q'' # str_nat n) [1..<16]"
    by (simp add: take_map)
  then show ?thesis
    using get_entity_ids_valid [of "''entities''" "demo_generator\<lparr>entities_to_leave := 2\<rparr>" "[''Berlin'']"]
    by (simp add: demo_generator_def)
qed

theorem get_entity_ids_first_15_witness:
  "get_entity_ids (demo_generator\<lparr>entities_to_leave := 2\<rparr>) [''Berlin''] ''entities'' =
     Inr [map (\<lambda>n. CHR ''Q'' # str_nat n) [1..<16]]
   \<and> length (map (\<lambda>n. CHR ''Q'' # str_nat n) [1..<16]) = 15"
  using get_entity_ids_first_15 [where what_to_link = "''entities''" and self = demo_generator
      and k = 2 and entities = "[''Berlin'']"]
    demo_generator_entities
  by simp

text \<open>
  C10. For every query whose initial join produces no rows, the call of the store
  adapter returns the empty list, whatever the unknown triplets, the filter entities,
  the order and the values to return are: none of the later stages runs, and a COUNT
  query over an empty join returns the empty list and no row with a zero count.
\<close>

theorem wiki_parser_call_empty_join:
  assumes "search_join document query = []"
  shows "wiki_parser_call float_of document what_return query unknown_query_triplets
           filter_entities order = Inr []"
  using assms by (simp add: wiki_parser_call_def)

theorem wiki_parser_call_empty_join_witness:
  "search_join empty_document [[[''?ent'', ''P31'', ''Q5'']]] = []
   \<and> wiki_parser_call (\<lambda>s. None) empty_document [''COUNT(?ent)''] [[[''?ent'', ''P31'', ''Q5'']]]
        [OTuple [''?ent'', ''x'']] (Some [OTuple [''ASC'', ''?ent'']]) (Some [OStr ''?ent'']) = Inr []"
proof -
  have h: "search_join empty_document [[[''?ent'', ''P31'', ''Q5'']]] = []"
    by (simp add: empty_document_def)
  show ?thesis
    using h wiki_parser_call_empty_join [OF h] by simp
qed

text \<open>
  C2. \<open>find_label\<close> is claimed to return the sentinel \<^verbatim>\<open>Not Found\<close> and never to raise on a
  string. The code reads the unbound name \<^verbatim>\<open>a\<close> in its first test, so every call raises
  NameError: on every document and string the result is the exception, and the sentinel
  of the last line is never reached.
\<close>

theorem find_label_raises_name_error:
  "find_label document entity = Inl NameError"
  by (simp add: find_label_def find_label_scope_def)

lemma triplets_one:
  "query_triplets_of one_query =
     [[''?ent'', ''P31'', ''T1''], [''?ent'', ''R1'', ''E1'']]"
  by code_simp

lemma stages_one:
  "query_stages [1, 1] [[''?ent'', ''P31'', ''T1''], [''?ent'', ''R1'', ''E1'']] =
     Inr [[[''?ent'', ''P31'', ''T1''], [''?ent'', ''R1'', ''E1'']]]"
  by code_simp

lemma directions_one:
  "rel_directions_of [0, 1] [[''?ent'', ''P31'', ''T1''], [''?ent'', ''R1'', ''E1'']] = Inr [(''backw'', 1)]"
  by code_simp

lemma predicates_one:
  "rels_from_query_of [[''?ent'', ''P31'', ''T1''], [''?ent'', ''R1'', ''E1'']] = Inr []"
  by code_simp

lemma select_one:
  "re_findall match_select 0 one_query = [''?ent'']"
  by code_simp

lemma order_one:
  "re_findall match_order 0 one_query = []"
  by code_simp

lemma contains_one:
  "re_findall match_contains 0 one_query = []"
  by code_simp

lemma combs_Q1: "make_combs [[''Q1'']] True = [[VStr ''Q1'', VInt 0]]"
  by code_simp

lemma combs_T5: "make_combs [[''T5'']] False = [[VStr ''T5'', VInt 0]]"
  by code_simp

lemma combs_P100: "make_combs [[''P100'']] False = [[VStr ''P100'', VInt 0]]"
  by code_simp

lemma fill_one:
  "fill_query [[''?ent'', ''P31'', ''T1''], [''?ent'', ''R1'', ''E1'']]
      [VStr ''Q1'', VInt 0] [VStr ''T5'', VInt 0] [VStr ''P100'', VInt 0] =
   Inr [[''?ent'', ''P31'', ''T5''], [''?ent'', ''P100'', ''Q1'']]"
  by code_simp

lemma substitute_filter_Nil: "substitute_filter placeholder val [] = Inr []"
  by (simp add: substitute_filter_def bind_err_def)

lemma setup_one:
  assumes "extract_number (word_tokenize self question) question = Inr number"
  shows "query_parser_setup self question one_template entity_ids type_ids rels_from_template =
     Inr \<lparr> what_return_of = [''?ent''],
           query_sequence_of = [[[''?ent'', ''P31'', ''T1''], [''?ent'', ''R1'', ''E1'']]],
           filter_from_query_of = [],
           order_from_query_of = [],
           combs_of = product3 (make_combs entity_ids True) (make_combs type_ids False)
                        (make_combs (case rels_from_template of
                                       Some rels \<Rightarrow> rels
                                     | None \<Rightarrow> [find_top_rels self question entity_ids (''backw'', 1)])
                           False) \<rparr>"
  using assms
  by (simp add: query_parser_setup_def one_template_def triplets_one stages_one directions_one
      predicates_one select_one order_one contains_one
      filter_from_query_for_def order_from_query_for_def substitute_filter_Nil bind_err_def
      Let_def split: option.split)

lemma wiki_single_row:
  assumes "search_join document qs = [row]" "dict_get row key = Inr v"
    "\<not> str_startswith key ''COUNT''"
  shows "wiki_parser_call float_of document [key] qs [] (Some []) None = Inr [[VStr v]]"
  using assms by (simp add: wiki_parser_call_def return_stage_def bind_err_def)

lemma loop_stop:
  assumes "map_err (\<lambda>q. fill_query q (fst combs) (fst (snd combs)) (snd (snd combs)))
             (query_sequence_of pq) = Inr qs"
    and "wiki_parser_call (py_float self) (wiki_parser self) (what_return_of pq) qs
           (filter_from_query_of pq) (Some (order_from_query_of pq)) None = Inr out"
    and "rif" "out \<noteq> []"
  shows "query_parser_loop self rif pq acc calls (combs # rest) =
           (Inr (acc @ map (\<lambda>output. butlast (snd (snd combs)) @ output) out), calls @ [qs])"
  using assms by simp

lemma loop_continue:
  assumes "map_err (\<lambda>q. fill_query q (fst combs) (fst (snd combs)) (snd (snd combs)))
             (query_sequence_of pq) = Inr qs"
    and "wiki_parser_call (py_float self) (wiki_parser self) (what_return_of pq) qs
           (filter_from_query_of pq) (Some (order_from_query_of pq)) None = Inr out"
    and "\<not> rif \<or> out = []"
  shows "query_parser_loop self rif pq acc calls (combs # rest) =
           query_parser_loop self rif pq (acc @ map (\<lambda>output. butlast (snd (snd combs)) @ output) out)
             (calls @ [qs]) rest"
  using assms by auto

lemma one_template_parse:
  assumes "extract_number (word_tokenize self question) question = Inr number"
    and "search_join (wiki_parser self) [[[''?ent'', ''P31'', ''T5''], [''?ent'', ''P100'', ''Q1'']]] = [row]"
    and "dict_get row ''?ent'' = Inr v"
  shows "query_parser_traced self question one_template [[''Q1'']] [[''T5'']] (Some [[''P100'']]) =
           (Inr [[VStr ''P100'', VStr v]], [[[[''?ent'', ''P31'', ''T5''], [''?ent'', ''P100'', ''Q1'']]]])"
proof -
  have w: "wiki_parser_call (py_float self) (wiki_parser self) [''?ent'']
             [[[''?ent'', ''P31'', ''T5''], [''?ent'', ''P100'', ''Q1'']]] [] (Some []) None = Inr [[VStr v]]"
    by (rule wiki_single_row [OF assms(2,3)]) (simp add: str_startswith_def)
  show ?thesis
    unfolding query_parser_traced_def setup_one [OF assms(1)]
    by (simp add: fill_one w one_template_def combs_Q1 combs_T5 combs_P100 product3_def)
qed

lemma kb_number: "extract_number (word_tokenize kb_generator ''who is it'') ''who is it'' = Inr []"
proof -
  have "extract_number (str_split ''who is it'' '' '') ''who is it'' = Inr []" by code_simp
  then show ?thesis by (simp add: kb_generator_def)
qed

lemma kb_top_rels:
  "find_top_rels kb_generator question [[''Q1'']] (''backw'', 1) = [''P100'']"
proof -
  have "last (str_split ''http://www.wikidata.org/prop/P100'' ''/'') = ''P100''" by code_simp
  moreover have "str_startswith ''http://www.wikidata.org/prop/P100'' ''http://www.wikidata.org/prop/P''"
    by (simp add: str_startswith_def)
  ultimately show ?thesis
    by (simp add: find_top_rels_def find_rels_def kb_generator_def kb_document_def entity_uri_def)
qed

lemma triplets_sub:
  "query_triplets_of sub_query = [[''?ent'', ''P279'', ''T1''], [''?ent'', ''R1'', ''E1'']]"
  by code_simp

lemma stages_sub:
  "query_stages [1, 1] [[''?ent'', ''P279'', ''T1''], [''?ent'', ''R1'', ''E1'']] =
     Inr [[[''?ent'', ''P279'', ''T1''], [''?ent'', ''R1'', ''E1'']]]"
  by code_simp

lemma directions_sub:
  "rel_directions_of [0, 1] [[''?ent'', ''P279'', ''T1''], [''?ent'', ''R1'', ''E1'']] = Inr [(''backw'', 1)]"
  by code_simp

lemma predicates_sub:
  "rels_from_query_of [[''?ent'', ''P279'', ''T1''], [''?ent'', ''R1'', ''E1'']] = Inr []"
  by code_simp

lemma select_sub: "re_findall match_select 0 sub_query = [''?ent'']"
  by code_simp

lemma order_sub: "re_findall match_order 0 sub_query = []"
  by code_simp

lemma contains_sub: "re_findall match_contains 0 sub_query = []"
  by code_simp

lemma fill_sub:
  "fill_query [[''?ent'', ''P279'', ''T1''], [''?ent'', ''R1'', ''E1'']]
      [VStr ''Q1'', VInt 0] [VStr ''T5'', VInt 0] [VStr ''P100'', VInt 0] =
   Inr [[''?ent'', ''P279'', ''T5''], [''?ent'', ''P100'', ''Q1'']]"
  by code_simp

lemma combs_Q1_Q2: "make_combs [[''Q1'', ''Q2'']] True = [[VStr ''Q1'', VInt 0], [VStr ''Q2'', VInt 1]]"
  by code_simp

lemma setup_sub:
  assumes "extract_number (word_tokenize self question) question = Inr number"
  shows "query_parser_setup self question (sub_template alts) entity_ids type_ids rels_from_template =
     Inr \<lparr> what_return_of = [''?ent''],
           query_sequence_of = [[[''?ent'', ''P279'', ''T1''], [''?ent'', ''R1'', ''E1'']]],
           filter_from_query_of = [],
           order_from_query_of = [],
           combs_of = product3 (make_combs entity_ids True) (make_combs type_ids False)
                        (make_combs (case rels_from_template of
                                       Some rels \<Rightarrow> rels
                                     | None \<Rightarrow> [find_top_rels self question entity_ids (''backw'', 1)])
                           False) \<rparr>"
  using assms
  by (simp add: query_parser_setup_def sub_template_def triplets_sub stages_sub directions_sub
      predicates_sub select_sub order_sub contains_sub
      filter_from_query_for_def order_from_query_for_def substitute_filter_Nil bind_err_def
      Let_def split: option.split)

lemma kb_join_one:
  "search_join (wiki_parser kb_generator) [[[''?ent'', ''P31'', ''T5''], [''?ent'', ''P100'', ''Q1'']]] =
     [[(''?ent'', ''Q7'')]]"
  by (simp add: kb_generator_def kb_document_def)

lemma kb_join_sub:
  "search_join (wiki_parser kb_generator) [[[''?ent'', ''P279'', ''T5''], [''?ent'', ''P100'', ''Q1'']]] = []"
  by (simp add: kb_generator_def kb_document_def)

lemma kb_row: "dict_get [(''?ent'', ''Q7'')] ''?ent'' = Inr ''Q7''"
  by (simp add: dict_get_def)

lemma kb_wiki_one:
  "wiki_parser_call (py_float kb_generator) (wiki_parser kb_generator) [''?ent'']
     [[[''?ent'', ''P31'', ''T5''], [''?ent'', ''P100'', ''Q1'']]] [] (Some []) None = Inr [[VStr ''Q7'']]"
  by (rule wiki_single_row [OF kb_join_one kb_row]) (simp add: str_startswith_def)

lemma kb_wiki_sub:
  "wiki_parser_call (py_float kb_generator) (wiki_parser kb_generator) [''?ent'']
     [[[''?ent'', ''P279'', ''T5''], [''?ent'', ''P100'', ''Q1'']]] [] (Some []) None = Inr []"
  by (simp add: wiki_parser_call_def kb_join_sub)

lemma kb_parse_one_none:
  "query_parser kb_generator ''who is it'' one_template [[''Q1'']] [[''T5'']] None =
     Inr [[VStr ''P100'', VStr ''Q7'']]"
  unfolding query_parser_def query_parser_traced_def setup_one [OF kb_number]
  by (simp add: fill_one kb_wiki_one one_template_def combs_Q1 combs_T5 combs_P100 product3_def
      kb_top_rels)

lemma kb_parse_sub_none:
  "query_parser kb_generator ''who is it'' (sub_template alts) [[''Q1'']] [[''T5'']] None = Inr []"
  unfolding query_parser_def query_parser_traced_def setup_sub [OF kb_number]
  by (simp add: fill_sub kb_wiki_sub sub_template_def combs_Q1 combs_T5 combs_P100 product3_def
      kb_top_rels)

lemma kb_parse_one_some:
  "query_parser kb_generator ''who is it'' one_template [[''Q1'']] [[''T5'']] (Some [[''P100'']]) =
     Inr [[VStr ''P100'', VStr ''Q7'']]"
  unfolding query_parser_def one_template_parse [OF kb_number kb_join_one kb_row] by simp

lemma comb_rank_render: "comb_rank (render t) = int (rank_sum t)"
  by (simp add: comb_rank_def render_def)

lemma make_combs_rank_sorted: "sorted (map comb_rank (make_combs entity_ids permut))"
proof -
  have "sorted (map rank_sum ts) \<Longrightarrow> sorted (map (\<lambda>t. int (rank_sum t)) ts)" for ts :: "(string \<times> nat) list list"
    by (induction ts) auto
  then show ?thesis
    unfolding make_combs_render by (simp add: comp_def comb_rank_render sorted_sort_key)
qed

lemma sorted_head_least:
  "sorted (map f xs) \<Longrightarrow> xs = x # rest \<Longrightarrow> y \<in> set xs \<Longrightarrow> f x \<le> f y"
  by auto

lemma product3_Cons:
  "product3 xs ys zs = c # rest \<Longrightarrow>
     \<exists>xs' ys' zs'. xs = fst c # xs' \<and> ys = fst (snd c) # ys' \<and> zs = snd (snd c) # zs'"
proof -
  have e: "concat (map (\<lambda>x. []) l) = ([] :: 'd list)" for l :: "'e list"
    by (induction l) auto
  assume "product3 xs ys zs = c # rest"
  then show ?thesis
    by (cases xs; cases ys; cases zs) (auto simp: product3_def e)
qed

lemma set_product3:
  "c \<in> set (product3 xs ys zs) \<Longrightarrow>
     fst c \<in> set xs \<and> fst (snd c) \<in> set ys \<and> snd (snd c) \<in> set zs"
  by (auto simp: product3_def)

lemma setup_combs:
  "query_parser_setup self question query_info entity_ids type_ids rels_from_template = Inr pq \<Longrightarrow>
     \<exists>rels. combs_of pq = product3 (make_combs entity_ids True) (make_combs type_ids False)
                            (make_combs rels False)"
  by (auto simp: query_parser_setup_def bind_err_def Let_def split: sum.splits)

lemma first_combination_least:
  assumes "query_parser_setup self question query_info entity_ids type_ids rels_from_template = Inr pq"
    and "combs_of pq = combs # rest" and "c \<in> set (combs_of pq)"
  shows "total_rank combs \<le> total_rank c"
proof -
  from setup_combs [OF assms(1)] obtain rels where
    p: "combs_of pq = product3 (make_combs entity_ids True) (make_combs type_ids False)
                        (make_combs rels False)" by blast
  from product3_Cons [OF p [unfolded assms(2), symmetric]] obtain xs' ys' zs' where
    h: "make_combs entity_ids True = fst combs # xs'"
       "make_combs type_ids False = fst (snd combs) # ys'"
       "make_combs rels False = snd (snd combs) # zs'" by blast
  from set_product3 [OF assms(3) [unfolded p]] have
    m: "fst c \<in> set (make_combs entity_ids True)"
       "fst (snd c) \<in> set (make_combs type_ids False)"
       "snd (snd c) \<in> set (make_combs rels False)" by auto
  have "comb_rank (fst combs) \<le> comb_rank (fst c)"
    by (rule sorted_head_least [OF make_combs_rank_sorted h(1) m(1)])
  moreover have "comb_rank (fst (snd combs)) \<le> comb_rank (fst (snd c))"
    by (rule sorted_head_least [OF make_combs_rank_sorted h(2) m(2)])
  moreover have "comb_rank (snd (snd combs)) \<le> comb_rank (snd (snd c))"
    by (rule sorted_head_least [OF make_combs_rank_sorted h(3) m(3)])
  ultimately show ?thesis by (simp add: total_rank_def)
qed

text \<open>
  C3. When the template's \<open>return_if_found\<close> flag is set and the first combination tried
  yields a non-empty result of the store adapter, \<open>query_parser\<close> returns the outputs of
  that combination at once: the adapter has been called exactly once, with the first
  combination's filled query. The first combination has the lowest aggregate rank of
  all combinations.
\<close>

theorem query_parser_return_if_found:
  assumes "query_parser_setup self question query_info entity_ids type_ids rels_from_template = Inr pq"
    and "return_if_found query_info"
    and "combs_of pq = combs # rest"
    and "map_err (\<lambda>q. fill_query q (fst combs) (fst (snd combs)) (snd (snd combs)))
           (query_sequence_of pq) = Inr qs"
    and "wiki_parser_call (py_float self) (wiki_parser self) (what_return_of pq) qs
           (filter_from_query_of pq) (Some (order_from_query_of pq)) None = Inr out"
    and "out \<noteq> []"
  shows "query_parser_traced self question query_info entity_ids type_ids rels_from_template =
           (Inr (map (\<lambda>output. butlast (snd (snd combs)) @ output) out), [qs])
         \<and> list_all (\<lambda>c. total_rank combs \<le> total_rank c) (combs_of pq)"
proof
  show "query_parser_traced self question query_info entity_ids type_ids rels_from_template =
           (Inr (map (\<lambda>output. butlast (snd (snd combs)) @ output) out), [qs])"
    using assms by (simp add: query_parser_traced_def)
  show "list_all (\<lambda>c. total_rank combs \<le> total_rank c) (combs_of pq)"
    unfolding list_all_iff using first_combination_least [OF assms(1) assms(3)] by blast
qed

lemma kb_setup_two:
  "query_parser_setup kb_generator ''who is it'' one_template [[''Q1'', ''Q2'']] [[''T5'']] (Some [[''P100'']]) =
     Inr \<lparr> what_return_of = [''?ent''],
           query_sequence_of = [[[''?ent'', ''P31'', ''T1''], [''?ent'', ''R1'', ''E1'']]],
           filter_from_query_of = [],
           order_from_query_of = [],
           combs_of = [([VStr ''Q1'', VInt 0], [VStr ''T5'', VInt 0], [VStr ''P100'', VInt 0]),
                       ([VStr ''Q2'', VInt 1], [VStr ''T5'', VInt 0], [VStr ''P100'', VInt 0])] \<rparr>"
  unfolding setup_one [OF kb_number]
  by (simp add: combs_Q1_Q2 combs_T5 combs_P100 product3_def)

theorem query_parser_return_if_found_witness:
  "query_parser_traced kb_generator ''who is it'' one_template [[''Q1'', ''Q2'']] [[''T5'']] (Some [[''P100'']]) =
     (Inr [[VStr ''P100'', VStr ''Q7'']], [[[[''?ent'', ''P31'', ''T5''], [''?ent'', ''P100'', ''Q1'']]]])
   \<and> return_if_found one_template"
proof -
  have rif: "return_if_found one_template" by (simp add: one_template_def)
  have fill: "map_err (\<lambda>q. fill_query q (fst ([VStr ''Q1'', VInt 0], [VStr ''T5'', VInt 0], [VStr ''P100'', VInt 0]))
                   (fst (snd ([VStr ''Q1'', VInt 0], [VStr ''T5'', VInt 0], [VStr ''P100'', VInt 0])))
                   (snd (snd ([VStr ''Q1'', VInt 0], [VStr ''T5'', VInt 0], [VStr ''P100'', VInt 0]))))
           (query_sequence_of \<lparr> what_return_of = [''?ent''],
           query_sequence_of = [[[''?ent'', ''P31'', ''T1''], [''?ent'', ''R1'', ''E1'']]],
           filter_from_query_of = [],
           order_from_query_of = [],
           combs_of = [([VStr ''Q1'', VInt 0], [VStr ''T5'', VInt 0], [VStr ''P100'', VInt 0]),
                       ([VStr ''Q2'', VInt 1], [VStr ''T5'', VInt 0], [VStr ''P100'', VInt 0])] \<rparr>)
          = Inr [[[''?ent'', ''P31'', ''T5''], [''?ent'', ''P100'', ''Q1'']]]"
    by (simp add: fill_one)
  show ?thesis
    using query_parser_return_if_found [OF kb_setup_two rif _ fill, of _ "[[VStr ''Q7'']]"] rif kb_wiki_one
    by simp
qed

text \<open>
  C1 (as the code has it). For the one-template knowledge base with the pattern
  \<^verbatim>\<open>?ent P31 T1 . ?ent R1 E1\<close>, entity candidates \<^verbatim>\<open>[["Q1"]]\<close>, type candidates \<^verbatim>\<open>[["T5"]]\<close>,
  relation candidates \<^verbatim>\<open>[["P100"]]\<close> and a store whose join returns exactly one row,
  \<open>query_parser\<close> returns exactly one candidate output: the relation combination
  \<^verbatim>\<open>["P100"]\<close> followed by the value the row binds to the selected variable. The entity
  and type identifiers fill the query but are not part of the output's prefix.
\<close>

theorem query_parser_one_template_prefix:
  assumes "extract_number (word_tokenize self question) question = Inr number"
    and "search_join (wiki_parser self) [[[''?ent'', ''P31'', ''T5''], [''?ent'', ''P100'', ''Q1'']]] = [row]"
    and "dict_get row ''?ent'' = Inr v"
  shows "query_parser self question one_template [[''Q1'']] [[''T5'']] (Some [[''P100'']]) =
           Inr [[VStr ''P100'', VStr v]]"
  unfolding query_parser_def one_template_parse [OF assms] by simp

theorem query_parser_one_template_prefix_witness:
  "extract_number (word_tokenize kb_generator ''who is it'') ''who is it'' = Inr []
   \<and> search_join (wiki_parser kb_generator) [[[''?ent'', ''P31'', ''T5''], [''?ent'', ''P100'', ''Q1'']]] =
       [[(''?ent'', ''Q7'')]]
   \<and> dict_get [(''?ent'', ''Q7'')] ''?ent'' = Inr ''Q7''
   \<and> query_parser kb_generator ''who is it'' one_template [[''Q1'']] [[''T5'']] (Some [[''P100'']]) =
       Inr [[VStr ''P100'', VStr ''Q7'']]"
  using query_parser_one_template_prefix [OF kb_number kb_join_one kb_row] kb_number kb_join_one kb_row
  by simp

text \<open>
  C1 as claimed, with the prefix \<^verbatim>\<open>["Q1","T5","P100"]\<close>, fails on the knowledge base
  \<open>kb_generator\<close>: the only candidate output is \<^verbatim>\<open>["P100", "Q7"]\<close>.
\<close>

theorem query_parser_one_template_counterexample:
  "query_parser kb_generator ''who is it'' one_template [[''Q1'']] [[''T5'']] (Some [[''P100'']]) =
     Inr [[VStr ''P100'', VStr ''Q7'']]
   \<and> query_parser kb_generator ''who is it'' one_template [[''Q1'']] [[''T5'']] (Some [[''P100'']]) \<noteq>
     Inr [[VStr ''Q1'', VStr ''T5'', VStr ''P100'', VStr ''Q7'']]"
  by (simp add: kb_parse_one_some)

lemma foldl_last_match:
  "foldl (\<lambda>chosen t. if P t then Some t else chosen) init ts =
     (case filter P ts of [] \<Rightarrow> init | m # ms \<Rightarrow> Some (last (m # ms)))"
  by (induction ts rule: rev_induct) (auto split: list.splits)

lemma filter_slot_matching:
  "filter P (slot_matching entity_ids type_ids all_templates) =
     filter (\<lambda>t. entities_and_types_num t = [int (length entity_ids), int (length type_ids)] \<and> P t)
       all_templates"
  by (simp add: slot_matching_def conj_commute)

text \<open>
  C7. When the template matcher supplies relations and relation directions,
  \<open>find_candidate_answers\<close> parses exactly one template, the slot-count-matching template
  whose \<open>rel_dirs\<close> equal the supplied directions (the last one in declared order,
  should several match), and returns the empty list when there is none. The result is a
  function of the template type, the candidate lists and the directions.
\<close>

theorem find_candidate_answers_rel_dirs:
  assumes "template_queries self template_num = Some all_templates"
  shows "find_candidate_answers self template_num question entity_ids type_ids (Some rels)
           rel_dirs_from_template =
         (case filter (\<lambda>t. Some (rel_dirs t) = rel_dirs_from_template)
                 (slot_matching entity_ids type_ids all_templates) of
            [] \<Rightarrow> Inr []
          | m # ms \<Rightarrow> query_parser self question (last (m # ms)) entity_ids type_ids (Some rels))"
  using assms
  by (simp add: find_candidate_answers_def foldl_last_match slot_matching_def Let_def
      split: list.splits)

lemma kb_templates_7:
  "template_queries kb_generator ''7'' = Some [sub_template (Some []), one_template]"
  by (simp add: kb_generator_def)

lemma kb_templates_8:
  "template_queries kb_generator ''8'' = Some [sub_template (Some [sub_template None, one_template])]"
  by (simp add: kb_generator_def)

lemma kb_slot_matching_7:
  "slot_matching [[''Q1'']] [[''T5'']] [sub_template (Some []), one_template] =
     [sub_template (Some []), one_template]"
  by (simp add: slot_matching_def sub_template_def one_template_def)

lemma kb_slot_matching_8:
  "slot_matching [[''Q1'']] [[''T5'']] [sub_template (Some [sub_template None, one_template])] =
     [sub_template (Some [sub_template None, one_template])]"
  by (simp add: slot_matching_def sub_template_def one_template_def)

theorem find_candidate_answers_rel_dirs_witness:
  "template_queries kb_generator ''7'' = Some [sub_template (Some []), one_template]
   \<and> find_candidate_answers kb_generator ''7'' ''who is it'' [[''Q1'']] [[''T5'']] (Some [[''P100'']])
       (Some [''backw'']) = Inr [[VStr ''P100'', VStr ''Q7'']]
   \<and> find_candidate_answers kb_generator ''7'' ''who is it'' [[''Q1'']] [[''T5'']] (Some [[''P100'']])
       (Some [''forw'', ''forw'']) = Inr []"
  using find_candidate_answers_rel_dirs [OF kb_templates_7, of "''who is it''" "[[''Q1'']]" "[[''T5'']]"
      "[[''P100'']]" "Some [''backw'']"]
    find_candidate_answers_rel_dirs [OF kb_templates_7, of "''who is it''" "[[''Q1'']]" "[[''T5'']]"
      "[[''P100'']]" "Some [''forw'', ''forw'']"]
    kb_templates_7
  by (simp add: kb_slot_matching_7 kb_parse_one_some) (simp add: sub_template_def one_template_def)

lemma first_nonempty_found:
  "i < length ts \<Longrightarrow> \<forall>j<i. parse (ts ! j) = Inr [] \<Longrightarrow> parse (ts ! i) = Inr outs \<Longrightarrow> outs \<noteq> []
   \<Longrightarrow> first_nonempty parse ts = Inr (Some outs)"
proof (induction ts arbitrary: i)
  case Nil
  then show ?case by simp
next
  case (Cons t ts)
  show ?case
  proof (cases i)
    case 0
    with Cons.prems show ?thesis by (simp add: bind_err_def)
  next
    case (Suc k)
    with Cons.prems have "parse t = Inr []" by auto
    moreover have "first_nonempty parse ts = Inr (Some outs)"
    proof (rule Cons.IH [of k])
      show "k < length ts" using Cons.prems Suc by simp
      show "\<forall>j<k. parse (ts ! j) = Inr []"
      proof (intro allI impI)
        fix j assume "j < k"
        then have "Suc j < i" using Suc by simp
        with Cons.prems(2) have "parse ((t # ts) ! Suc j) = Inr []" by blast
        then show "parse (ts ! j) = Inr []" by simp
      qed
      show "parse (ts ! k) = Inr outs" using Cons.prems Suc by simp
      show "outs \<noteq> []" by fact
    qed
    ultimately show ?thesis by (simp add: bind_err_def)
  qed
qed

lemma first_nonempty_none:
  "\<forall>t\<in>set ts. parse t = Inr [] \<Longrightarrow> first_nonempty parse ts = Inr None"
  by (induction ts) (auto simp: bind_err_def)

text \<open>
  C4. When no relations (and so no relation directions) are supplied,
  \<open>find_candidate_answers\<close> goes through the slot-count-matching templates in declared
  order and returns the output of the first one whose output is not empty; when every
  one of them yields the empty list, it returns the output of the first alternative
  template of the first matching template, whatever that output is: no later
  alternative is parsed.
\<close>

theorem find_candidate_answers_without_rels:
  assumes "template_queries self template_num = Some all_templates"
  shows "(\<forall>i outs. i < length (slot_matching entity_ids type_ids all_templates)
            \<and> (\<forall>j<i. query_parser self question (slot_matching entity_ids type_ids all_templates ! j)
                        entity_ids type_ids None = Inr [])
            \<and> query_parser self question (slot_matching entity_ids type_ids all_templates ! i)
                entity_ids type_ids None = Inr outs
            \<and> outs \<noteq> []
          \<longrightarrow> find_candidate_answers self template_num question entity_ids type_ids None
                rel_dirs_from_template = Inr outs)
       \<and> (\<forall>t0 rest alt alts. slot_matching entity_ids type_ids all_templates = t0 # rest
            \<and> (\<forall>t\<in>set (t0 # rest). query_parser self question t entity_ids type_ids None = Inr [])
            \<and> alternative_templates t0 = Some (alt # alts)
          \<longrightarrow> find_candidate_answers self template_num question entity_ids type_ids None
                rel_dirs_from_template = query_parser self question alt entity_ids type_ids None)"
proof (intro conjI allI impI)
  fix i outs
  assume h: "i < length (slot_matching entity_ids type_ids all_templates)
            \<and> (\<forall>j<i. query_parser self question (slot_matching entity_ids type_ids all_templates ! j)
                        entity_ids type_ids None = Inr [])
            \<and> query_parser self question (slot_matching entity_ids type_ids all_templates ! i)
                entity_ids type_ids None = Inr outs
            \<and> outs \<noteq> []"
  have "first_nonempty (\<lambda>t. query_parser self question t entity_ids type_ids None)
          (slot_matching entity_ids type_ids all_templates) = Inr (Some outs)"
    by (rule first_nonempty_found) (use h in auto)
  then show "find_candidate_answers self template_num question entity_ids type_ids None
                rel_dirs_from_template = Inr outs"
    using assms by (simp add: find_candidate_answers_def slot_matching_def Let_def bind_err_def)
next
  fix t0 rest alt alts
  assume h: "slot_matching entity_ids type_ids all_templates = t0 # rest
            \<and> (\<forall>t\<in>set (t0 # rest). query_parser self question t entity_ids type_ids None = Inr [])
            \<and> alternative_templates t0 = Some (alt # alts)"
  have "first_nonempty (\<lambda>t. query_parser self question t entity_ids type_ids None)
          (slot_matching entity_ids type_ids all_templates) = Inr None"
    by (rule first_nonempty_none) (use h in auto)
  then show "find_candidate_answers self template_num question entity_ids type_ids None
                rel_dirs_from_template = query_parser self question alt entity_ids type_ids None"
    using assms h by (simp add: find_candidate_answers_def slot_matching_def Let_def bind_err_def)
qed

theorem find_candidate_answers_without_rels_witness:
  "find_candidate_answers kb_generator ''7'' ''who is it'' [[''Q1'']] [[''T5'']] None None =
     Inr [[VStr ''P100'', VStr ''Q7'']]
   \<and> find_candidate_answers kb_generator ''8'' ''who is it'' [[''Q1'']] [[''T5'']] None None = Inr []
   \<and> query_parser kb_generator ''who is it'' one_template [[''Q1'']] [[''T5'']] None =
       Inr [[VStr ''P100'', VStr ''Q7'']]"
proof -
  have a: "find_candidate_answers kb_generator ''7'' ''who is it'' [[''Q1'']] [[''T5'']] None None =
     Inr [[VStr ''P100'', VStr ''Q7'']]"
  proof -
    have "1 < length (slot_matching [[''Q1'']] [[''T5'']] [sub_template (Some []), one_template])
        \<and> (\<forall>j<1. query_parser kb_generator ''who is it''
                    (slot_matching [[''Q1'']] [[''T5'']] [sub_template (Some []), one_template] ! j)
                    [[''Q1'']] [[''T5'']] None = Inr [])
        \<and> query_parser kb_generator ''who is it''
            (slot_matching [[''Q1'']] [[''T5'']] [sub_template (Some []), one_template] ! 1)
            [[''Q1'']] [[''T5'']] None = Inr [[VStr ''P100'', VStr ''Q7'']]
        \<and> [[VStr ''P100'', VStr ''Q7'']] \<noteq> []"
      by (simp add: kb_slot_matching_7 kb_parse_sub_none kb_parse_one_none)
    with find_candidate_answers_without_rels [OF kb_templates_7, of "[[''Q1'']]" "[[''T5'']]"
        "''who is it''" None]
    show ?thesis by blast
  qed
  have b: "find_candidate_answers kb_generator ''8'' ''who is it'' [[''Q1'']] [[''T5'']] None None = Inr []"
  proof -
    have "slot_matching [[''Q1'']] [[''T5'']] [sub_template (Some [sub_template None, one_template])] =
            sub_template (Some [sub_template None, one_template]) # []
        \<and> (\<forall>t\<in>set (sub_template (Some [sub_template None, one_template]) # []).
              query_parser kb_generator ''who is it'' t [[''Q1'']] [[''T5'']] None = Inr [])
        \<and> alternative_templates (sub_template (Some [sub_template None, one_template])) =
            Some (sub_template None # [one_template])"
      by (simp add: kb_slot_matching_8 kb_parse_sub_none) (simp add: sub_template_def)
    with find_candidate_answers_without_rels [OF kb_templates_8, of "[[''Q1'']]" "[[''T5'']]"
        "''who is it''" None]
    have "find_candidate_answers kb_generator ''8'' ''who is it'' [[''Q1'']] [[''T5'']] None None =
            query_parser kb_generator ''who is it'' (sub_template None) [[''Q1'']] [[''T5'']] None"
      by blast
    then show ?thesis by (simp add: kb_parse_sub_none)
  qed
  show ?thesis using a b kb_parse_one_none by simp
qed

text \<open>
  C8. \<open>extract_number\<close> is claimed to remove nothing from the number token but an ordinal
  suffix and a trailing \<^verbatim>\<open>.0\<close>. The code calls \<^verbatim>\<open>number.strip(".0")\<close>, which removes every
  leading and trailing dot and zero: the token \<^verbatim>\<open>10\<close> becomes \<^verbatim>\<open>1\<close>.
\<close>

theorem extract_number_strips_zero_digits:
  "extract_number [''10'', ''largest'', ''cities''] ''10 largest cities'' = Inr ''1''"
  by code_simp

lemma extract_number_second_place:
  "extract_number [''2nd'', ''place''] ''finished 2nd place'' = Inr ''2''"
  by code_simp

subsection \<open>Filling a template and reading the placeholders back\<close>

lemma replace_Nil: "old \<noteq> [] \<Longrightarrow> str_replace [] old new = []"
  by (subst str_replace.simps) simp

lemma replace_Cons:
  "old \<noteq> [] \<Longrightarrow> str_replace (c # cs) old new =
     (if str_startswith (c # cs) old then new @ str_replace (drop (length old) (c # cs)) old new
      else c # str_replace cs old new)"
  by (subst str_replace.simps) simp

lemma contains_Nil: "str_contains [] p \<longleftrightarrow> p = []"
  by (simp add: str_contains_def)

lemma contains_Cons:
  "str_contains (c # cs) p \<longleftrightarrow> str_startswith (c # cs) p \<or> str_contains cs p"
  by (simp add: str_contains_def Let_def)

lemma replace_not_contained:
  "old \<noteq> [] \<Longrightarrow> \<not> str_contains s old \<Longrightarrow> str_replace s old new = s"
  by (induction s) (simp_all add: replace_Nil replace_Cons contains_Cons)

lemma startswith_set: "str_startswith s p \<Longrightarrow> set p \<subseteq> set s"
  unfolding str_startswith_def by (metis set_take_subset)

lemma contains_set: "str_contains s p \<Longrightarrow> set p \<subseteq> set s"
proof (induction s)
  case Nil
  then show ?case by (simp add: contains_Nil)
next
  case (Cons c cs)
  from Cons.prems have "str_startswith (c # cs) p \<or> str_contains cs p"
    by (simp add: contains_Cons)
  then show ?case
  proof
    assume "str_startswith (c # cs) p"
    then show ?thesis by (rule startswith_set)
  next
    assume "str_contains cs p"
    then have "set p \<subseteq> set cs" by (rule Cons.IH)
    then show ?thesis by auto
  qed
qed

lemma replace_self: "old \<noteq> [] \<Longrightarrow> str_replace old old new = new"
  by (cases old) (simp_all add: replace_Cons replace_Nil str_startswith_def)

lemma startswith_append_sep:
  assumes "sep \<notin> set old"
  shows "str_startswith (a @ sep # b) old \<longleftrightarrow> str_startswith a old \<and> length old \<le> length a"
proof
  assume h: "str_startswith (a @ sep # b) old"
  have le: "length old \<le> length a"
  proof (rule ccontr)
    assume "\<not> length old \<le> length a"
    then have "length a < length old" by simp
    then have "take (length old) (a @ sep # b) ! length a = sep"
      by (simp add: nth_append)
    moreover have "length a < length (take (length old) (a @ sep # b))"
      using \<open>length a < length old\<close> by simp
    ultimately have "sep \<in> set (take (length old) (a @ sep # b))"
      by (metis nth_mem)
    with h assms show False by (simp add: str_startswith_def)
  qed
  with h show "str_startswith a old \<and> length old \<le> length a"
    by (simp add: str_startswith_def)
next
  assume "str_startswith a old \<and> length old \<le> length a"
  then show "str_startswith (a @ sep # b) old" by (simp add: str_startswith_def)
qed

lemma startswith_length: "str_startswith a old \<Longrightarrow> length old \<le> length a"
proof -
  assume "str_startswith a old"
  then have "length (take (length old) a) = length old" by (simp add: str_startswith_def)
  then show ?thesis by simp
qed

lemma replace_sep:
  assumes "old \<noteq> []" "sep \<notin> set old"
  shows "str_replace (a @ sep # b) old new = str_replace a old new @ sep # str_replace b old new"
proof (induction a rule: length_induct)
  case (1 a)
  show ?case
  proof (cases a)
    case Nil
    have "\<not> str_startswith (sep # b) old"
      using assms by (cases old) (auto simp: str_startswith_def)
    then show ?thesis using Nil assms by (simp add: replace_Cons replace_Nil)
  next
    case (Cons c cs)
    show ?thesis
    proof (cases "str_startswith a old")
      case True
      then have le: "length old \<le> length a" by (rule startswith_length)
      have sw: "str_startswith (a @ sep # b) old"
        using True le startswith_append_sep [OF assms(2)] by blast
      have lt: "length (drop (length old) a) < length a"
        using assms(1) Cons by simp
      have "str_replace (drop (length old) a @ sep # b) old new =
              str_replace (drop (length old) a) old new @ sep # str_replace b old new"
        using 1 lt by blast
      moreover have "drop (length old) (a @ sep # b) = drop (length old) a @ sep # b"
        using le by simp
      ultimately show ?thesis
        using True sw Cons assms(1) by (simp add: replace_Cons)
    next
      case False
      then have nsw: "\<not> str_startswith (a @ sep # b) old"
        using startswith_append_sep [OF assms(2)] by blast
      have "str_replace (cs @ sep # b) old new = str_replace cs old new @ sep # str_replace b old new"
        using 1 Cons by simp
      then show ?thesis
        using False nsw Cons assms(1) by (simp add: replace_Cons)
    qed
  qed
qed

lemma replace_nonempty:
  "old \<noteq> [] \<Longrightarrow> new \<noteq> [] \<Longrightarrow> s \<noteq> [] \<Longrightarrow> str_replace s old new \<noteq> []"
  by (cases s) (simp_all add: replace_Cons)

lemma replace_set:
  assumes "old \<noteq> []"
  shows "set (str_replace s old new) \<subseteq> set s \<union> set new"
proof (induction s rule: length_induct)
  case (1 s)
  show ?case
  proof (cases s)
    case Nil
    then show ?thesis using assms by (simp add: replace_Nil)
  next
    case (Cons c cs)
    have a: "set (str_replace cs old new) \<subseteq> set cs \<union> set new" using 1 Cons by simp
    have "length (drop (length old) s) < length s" using assms Cons by simp
    then have "set (str_replace (drop (length old) s) old new) \<subseteq> set (drop (length old) s) \<union> set new"
      using 1 by blast
    moreover have "set (drop (length old) s) \<subseteq> set s" by (rule set_drop_subset)
    ultimately have b: "set (str_replace (drop (length old) s) old new) \<subseteq> set s \<union> set new" by blast
    show ?thesis using a b Cons assms by (auto simp: replace_Cons)
  qed
qed

lemma spacewise_comp: "spacewise f \<Longrightarrow> spacewise g \<Longrightarrow> spacewise (\<lambda>s. g (f s))"
  by (simp add: spacewise_def)

lemma spacewise_replace:
  "old \<noteq> [] \<Longrightarrow> CHR '' '' \<notin> set old \<Longrightarrow> spacewise (\<lambda>s. str_replace s old new)"
  by (simp add: spacewise_def replace_Nil replace_sep)

lemma spacewise_join1:
  "spacewise f \<Longrightarrow> f (str_join '' '' toks) = str_join '' '' (map f toks)"
  by (induction "'' ''" toks rule: str_join.induct) (simp_all add: spacewise_def)

lemma spacewise_join2:
  assumes "spacewise f"
  shows "f (str_join ''  '' rows) = str_join ''  '' (map f rows)"
proof (induction "''  ''" rows rule: str_join.induct)
  case 1
  then show ?case using assms by (simp add: spacewise_def)
next
  case (2 x)
  then show ?case by simp
next
  case (3 x y ys)
  have "f (x @ CHR '' '' # ([] @ CHR '' '' # str_join ''  '' (y # ys))) =
          f x @ CHR '' '' # (f [] @ CHR '' '' # f (str_join ''  '' (y # ys)))"
    using assms unfolding spacewise_def by metis
  then show ?case using 3 assms by (simp add: spacewise_def)
qed

lemma split_acc_Nil: "split_acc [] sep acc = [rev acc]"
  by (subst split_acc.simps) simp

lemma split_acc_Cons:
  "split_acc (c # cs) sep acc =
     (if sep \<noteq> [] \<and> str_startswith (c # cs) sep
      then rev acc # split_acc (drop (length sep) (c # cs)) sep []
      else split_acc cs sep (c # acc))"
  by (subst split_acc.simps) simp

lemma split_acc_token:
  "CHR '' '' \<notin> set tok \<Longrightarrow>
     split_acc (tok @ rest) (CHR '' '' # sep) acc = split_acc rest (CHR '' '' # sep) (rev tok @ acc)"
proof (induction tok arbitrary: acc)
  case Nil
  then show ?case by simp
next
  case (Cons c cs)
  then have "\<not> str_startswith (c # cs @ rest) (CHR '' '' # sep)"
    by (auto simp: str_startswith_def)
  then show ?case using Cons by (simp add: split_acc_Cons)
qed

lemma split_join_space:
  "\<forall>t\<in>set (t # ts). CHR '' '' \<notin> set t \<Longrightarrow>
     split_acc (str_join '' '' (t # ts)) '' '' acc = (rev acc @ t) # ts"
proof (induction ts arbitrary: t acc)
  case Nil
  then show ?case using split_acc_token [of t "[]" "[]" acc] by (simp add: split_acc_Nil)
next
  case (Cons t' ts)
  have "split_acc (t @ CHR '' '' # str_join '' '' (t' # ts)) '' '' acc =
          split_acc (CHR '' '' # str_join '' '' (t' # ts)) '' '' (rev t @ acc)"
    using Cons.prems split_acc_token [of t "CHR '' '' # str_join '' '' (t' # ts)" "[]" acc] by simp
  also have "\<dots> = (rev acc @ t) # split_acc (str_join '' '' (t' # ts)) '' '' []"
    by (simp add: split_acc_Cons str_startswith_def)
  also have "split_acc (str_join '' '' (t' # ts)) '' '' [] = t' # ts"
    using Cons.IH [of t' "[]"] Cons.prems by simp
  finally show ?case by simp
qed

lemma split_row_double:
  "\<forall>t\<in>set (t # ts). CHR '' '' \<notin> set t \<Longrightarrow> \<forall>t\<in>set ts. t \<noteq> [] \<Longrightarrow>
     split_acc (str_join '' '' (t # ts) @ rest) ''  '' acc =
       split_acc rest ''  '' (rev (str_join '' '' (t # ts)) @ acc)"
proof (induction ts arbitrary: t acc)
  case Nil
  then show ?case using split_acc_token [of t rest "'' ''" acc] by simp
next
  case (Cons t' ts)
  obtain c cs where t': "t' = c # cs" and c: "c \<noteq> CHR '' ''"
    using Cons.prems by (cases t') auto
  have j: "str_join '' '' (t' # ts) = c # tl (str_join '' '' (t' # ts))"
    using t' by (cases ts) simp_all
  have "split_acc (t @ CHR '' '' # str_join '' '' (t' # ts) @ rest) ''  '' acc =
          split_acc (CHR '' '' # str_join '' '' (t' # ts) @ rest) ''  '' (rev t @ acc)"
    using Cons.prems split_acc_token [of t "CHR '' '' # str_join '' '' (t' # ts) @ rest" "'' ''" acc]
    by simp
  also have "\<dots> = split_acc (str_join '' '' (t' # ts) @ rest) ''  '' (CHR '' '' # rev t @ acc)"
  proof -
    have "\<not> str_startswith (CHR '' '' # str_join '' '' (t' # ts) @ rest) ''  ''"
      by (subst j) (use c in \<open>simp add: str_startswith_def\<close>)
    then show ?thesis by (simp add: split_acc_Cons)
  qed
  also have "\<dots> = split_acc rest ''  '' (rev (str_join '' '' (t' # ts)) @ CHR '' '' # rev t @ acc)"
    using Cons.IH [of t' "CHR '' '' # rev t @ acc"] Cons.prems by simp
  finally show ?case by simp
qed

lemma split_rows_double:
  "\<forall>row\<in>set (row # rows). row_ok row \<Longrightarrow>
     split_acc (str_join ''  '' (map (str_join '' '') (row # rows))) ''  '' acc =
       (rev acc @ str_join '' '' row) # map (str_join '' '') rows"
proof (induction rows arbitrary: row acc)
  case Nil
  then obtain t ts where r: "row = t # ts" by (cases row) (auto simp: row_ok_def)
  with Nil have "split_acc (str_join '' '' (t # ts) @ []) ''  '' acc =
       split_acc [] ''  '' (rev (str_join '' '' (t # ts)) @ acc)"
    by (intro split_row_double) (auto simp: row_ok_def)
  then show ?case using r by (simp add: split_acc_Nil)
next
  case (Cons row' rows)
  then obtain t ts where r: "row = t # ts" by (cases row) (auto simp: row_ok_def)
  let ?rest = "''  '' @ str_join ''  '' (map (str_join '' '') (row' # rows))"
  have "split_acc (str_join '' '' (t # ts) @ ?rest) ''  '' acc =
       split_acc ?rest ''  '' (rev (str_join '' '' (t # ts)) @ acc)"
    using Cons.prems r by (intro split_row_double) (auto simp: row_ok_def)
  also have "\<dots> = (rev acc @ str_join '' '' (t # ts))
                    # split_acc (str_join ''  '' (map (str_join '' '') (row' # rows))) ''  '' []"
    by (simp add: split_acc_Cons str_startswith_def)
  also have "split_acc (str_join ''  '' (map (str_join '' '') (row' # rows))) ''  '' [] =
               str_join '' '' row' # map (str_join '' '') rows"
    using Cons.IH [of row' "[]"] Cons.prems by simp
  finally show ?case using r by simp
qed

lemma split_query:
  assumes "query \<noteq> []" "\<forall>row\<in>set query. row_ok row"
  shows "map (\<lambda>triplet. str_split triplet '' '')
           (str_split (str_join ''  '' (map (str_join '' '') query)) ''  '') = query"
proof -
  obtain row rows where q: "query = row # rows" using assms(1) by (cases query) auto
  have "str_split (str_join ''  '' (map (str_join '' '') query)) ''  '' = map (str_join '' '') query"
    unfolding str_split_def q using split_rows_double [of row rows "[]"] assms(2) q by simp
  moreover have "str_split (str_join '' '' r) '' '' = r" if "r \<in> set query" for r
  proof -
    from that assms(2) have ok: "row_ok r" by blast
    then obtain t ts where r: "r = t # ts" by (cases r) (simp_all add: row_ok_def)
    have "\<forall>t\<in>set (t # ts). CHR '' '' \<notin> set t" using ok r by (simp add: row_ok_def)
    then show ?thesis unfolding str_split_def r
      using split_join_space [of t ts "[]"] by simp
  qed
  ultimately show ?thesis by (simp add: map_idI)
qed

lemma replace_slots_strings:
  "replace_slots letter n (map VStr vs) query = Inr (subst_slots letter n vs query)"
  by (induction vs arbitrary: n query) simp_all

lemma str_nat_digit: "n < 10 \<Longrightarrow> str_nat n = [''0123456789'' ! n]"
  by (subst str_nat.simps) simp

lemma str_nat_digits: "set (str_nat n) \<subseteq> set ''0123456789''"
proof (induction n rule: str_nat.induct)
  case (1 n)
  have d: "''0123456789'' ! k \<in> set ''0123456789''" if "k < 10" for k
    using that by (intro nth_mem) simp
  show ?case
  proof (cases "n < 10")
    case True
    then show ?thesis using d [of n] by (subst str_nat.simps) simp
  next
    case False
    have "n mod 10 < 10" by simp
    then have "''0123456789'' ! (n mod 10) \<in> set ''0123456789''" by (rule d)
    moreover have "set (str_nat (n div 10)) \<subseteq> set ''0123456789''" using 1 False by simp
    ultimately show ?thesis using False by (subst str_nat.simps) simp
  qed
qed

lemma str_nat_nonempty: "str_nat n \<noteq> []"
  by (subst str_nat.simps) simp

lemma slot_token_space: "CHR '' '' \<notin> set letter \<Longrightarrow> CHR '' '' \<notin> set (slot_token letter n)"
  using str_nat_digits [of "n + 1"] by (auto simp: slot_token_def)

lemma slot_token_nonempty: "slot_token letter n \<noteq> []"
  by (simp add: slot_token_def str_nat_nonempty)

lemma subst_slots_token:
  "subst_slots letter n (v # vs) query =
     subst_slots letter (Suc n) vs (str_replace query (slot_token letter n) v)"
  by (simp add: slot_token_def)

lemma spacewise_subst:
  "CHR '' '' \<notin> set letter \<Longrightarrow> spacewise (subst_slots letter n vs)"
proof (induction vs arbitrary: n)
  case Nil
  then show ?case by (simp add: spacewise_def)
next
  case (Cons v vs)
  have "spacewise (\<lambda>s. str_replace s (slot_token letter n) v)"
    by (rule spacewise_replace) (simp_all add: slot_token_nonempty slot_token_space Cons.prems)
  from spacewise_comp [OF this Cons.IH [OF Cons.prems, of "Suc n"]]
  show ?case by (simp add: subst_slots_token del: subst_slots.simps)
qed

lemma subst_nonempty:
  "\<forall>v\<in>set vs. v \<noteq> [] \<Longrightarrow> s \<noteq> [] \<Longrightarrow> subst_slots letter n vs s \<noteq> []"
proof (induction vs arbitrary: n s)
  case Nil
  then show ?case by simp
next
  case (Cons v vs)
  have "str_replace s (slot_token letter n) v \<noteq> []"
    using Cons.prems by (intro replace_nonempty) (simp_all add: slot_token_nonempty)
  then show ?case using Cons by (simp add: subst_slots_token del: subst_slots.simps)
qed

lemma subst_space_free:
  "\<forall>v\<in>set vs. CHR '' '' \<notin> set v \<Longrightarrow> CHR '' '' \<notin> set s \<Longrightarrow>
     CHR '' '' \<notin> set (subst_slots letter n vs s)"
proof (induction vs arbitrary: n s)
  case Nil
  then show ?case by simp
next
  case (Cons v vs)
  have "set (str_replace s (slot_token letter n) v) \<subseteq> set s \<union> set v"
    by (rule replace_set) (simp add: slot_token_nonempty)
  then have "CHR '' '' \<notin> set (str_replace s (slot_token letter n) v)"
    using Cons.prems by auto
  then show ?case using Cons by (simp add: subst_slots_token del: subst_slots.simps)
qed

lemma subst_id:
  "\<forall>j<length vs. \<not> str_contains s (slot_token letter (n + j)) \<Longrightarrow> subst_slots letter n vs s = s"
proof (induction vs arbitrary: n)
  case Nil
  then show ?case by simp
next
  case (Cons v vs)
  have "\<not> str_contains s (slot_token letter n)" using Cons.prems by force
  then have "str_replace s (slot_token letter n) v = s"
    by (intro replace_not_contained) (simp_all add: slot_token_nonempty)
  moreover have "subst_slots letter (Suc n) vs s = s"
  proof (rule Cons.IH)
    show "\<forall>j<length vs. \<not> str_contains s (slot_token letter (Suc n + j))"
    proof (intro allI impI)
      fix j assume "j < length vs"
      then have "Suc j < length (v # vs)" by simp
      with Cons.prems have "\<not> str_contains s (slot_token letter (n + Suc j))" by blast
      then show "\<not> str_contains s (slot_token letter (Suc n + j))" by simp
    qed
  qed
  ultimately show ?case by (simp add: subst_slots_token del: subst_slots.simps)
qed

lemma subst_hit:
  "i < length vs \<Longrightarrow>
   \<forall>j<i. \<not> str_contains (slot_token letter (n + i)) (slot_token letter (n + j)) \<Longrightarrow>
   \<forall>j<length vs. i < j \<longrightarrow> \<not> str_contains (vs ! i) (slot_token letter (n + j)) \<Longrightarrow>
   subst_slots letter n vs (slot_token letter (n + i)) = vs ! i"
proof (induction vs arbitrary: n i)
  case Nil
  then show ?case by simp
next
  case (Cons v vs)
  show ?case
  proof (cases i)
    case 0
    have "str_replace (slot_token letter n) (slot_token letter n) v = v"
      by (rule replace_self) (simp add: slot_token_nonempty)
    moreover have "subst_slots letter (Suc n) vs v = v"
    proof (rule subst_id, intro allI impI)
      fix j assume "j < length vs"
      then have "Suc j < length (v # vs)" "0 < Suc j" by simp_all
      with Cons.prems(3) 0 have "\<not> str_contains ((v # vs) ! 0) (slot_token letter (n + Suc j))"
        by blast
      then show "\<not> str_contains v (slot_token letter (Suc n + j))" by simp
    qed
    ultimately show ?thesis using 0 by (simp add: subst_slots_token del: subst_slots.simps)
  next
    case (Suc k)
    have "\<not> str_contains (slot_token letter (n + i)) (slot_token letter (n + 0))"
      using Cons.prems(2) Suc by blast
    then have "str_replace (slot_token letter (n + i)) (slot_token letter n) v = slot_token letter (n + i)"
      by (intro replace_not_contained) (simp_all add: slot_token_nonempty)
    moreover have "subst_slots letter (Suc n) vs (slot_token letter (Suc n + k)) = vs ! k"
    proof (rule Cons.IH)
      show "k < length vs" using Cons.prems(1) Suc by simp
      show "\<forall>j<k. \<not> str_contains (slot_token letter (Suc n + k)) (slot_token letter (Suc n + j))"
      proof (intro allI impI)
        fix j assume "j < k"
        then have "Suc j < i" using Suc by simp
        with Cons.prems(2) have "\<not> str_contains (slot_token letter (n + i)) (slot_token letter (n + Suc j))"
          by blast
        then show "\<not> str_contains (slot_token letter (Suc n + k)) (slot_token letter (Suc n + j))"
          using Suc by simp
      qed
      show "\<forall>j<length vs. k < j \<longrightarrow> \<not> str_contains (vs ! k) (slot_token letter (Suc n + j))"
      proof (intro allI impI)
        fix j assume "j < length vs" "k < j"
        then have "Suc j < length (v # vs)" "i < Suc j" using Suc by simp_all
        with Cons.prems(3) have "\<not> str_contains ((v # vs) ! i) (slot_token letter (n + Suc j))"
          by blast
        then show "\<not> str_contains (vs ! k) (slot_token letter (Suc n + j))" using Suc by simp
      qed
    qed
    ultimately show ?thesis using Suc by (simp add: subst_slots_token del: subst_slots.simps)
  qed
qed

lemma contains_short: "length s < length p \<Longrightarrow> \<not> str_contains s p"
proof (induction s)
  case Nil
  then show ?case by (auto simp: contains_Nil)
next
  case (Cons c cs)
  have "\<not> str_startswith (c # cs) p"
    using Cons.prems startswith_length [of "c # cs" p] by auto
  then show ?case using Cons by (simp add: contains_Cons)
qed

lemma contains_same_length:
  assumes "length s = length p" "p \<noteq> []"
  shows "str_contains s p \<longleftrightarrow> s = p"
proof (cases s)
  case Nil
  then show ?thesis using assms by simp
next
  case (Cons c cs)
  have "\<not> str_contains cs p" using assms Cons by (intro contains_short) simp
  moreover have "str_startswith s p \<longleftrightarrow> s = p" using assms by (simp add: str_startswith_def)
  ultimately show ?thesis using Cons by (simp add: contains_Cons)
qed

lemma slot_token_single: "n < 9 \<Longrightarrow> slot_token [l] n = [l, ''0123456789'' ! (n + 1)]"
  by (simp add: slot_token_def str_nat_digit)

lemma digit_inj: "i < 10 \<Longrightarrow> j < 10 \<Longrightarrow> ''0123456789'' ! i = ''0123456789'' ! j \<longleftrightarrow> i = j"
  by (intro nth_eq_iff_index_eq) simp_all

lemma slot_token_contains:
  assumes "i < 9" "j < 9"
  shows "str_contains (slot_token [l] i) (slot_token [l'] j) \<longleftrightarrow> l = l' \<and> i = j"
proof -
  have "str_contains (slot_token [l] i) (slot_token [l'] j) \<longleftrightarrow> slot_token [l] i = slot_token [l'] j"
    using assms by (intro contains_same_length) (simp_all add: slot_token_single)
  also have "\<dots> \<longleftrightarrow> l = l' \<and> i = j"
    using assms digit_inj [of "i + 1" "j + 1"] by (simp add: slot_token_single)
  finally show ?thesis .
qed

lemma zip_slot_member:
  "(tok, v) \<in> set (zip (map f [0..<length vs]) vs) \<Longrightarrow> \<exists>i<length vs. tok = f i \<and> v = vs ! i"
  by (auto simp: in_set_zip)

lemma slot_table_cases:
  assumes "map_of (slot_table es ts rs) tok = Some v"
  shows "(\<exists>i<length es. tok = slot_token ''E'' i \<and> v = es ! i)
       \<or> (\<exists>i<length ts. tok = slot_token ''T'' i \<and> v = ts ! i)
       \<or> (\<exists>i<length rs. tok = slot_token ''R'' i \<and> v = rs ! i)"
proof -
  from map_of_SomeD [OF assms] have "(tok, v) \<in> set (slot_table es ts rs)" .
  then have
    "(tok, v) \<in> set (zip (map (slot_token ''E'') [0..<length es]) es)
     \<or> (tok, v) \<in> set (zip (map (slot_token ''T'') [0..<length ts]) ts)
     \<or> (tok, v) \<in> set (zip (map (slot_token ''R'') [0..<length rs]) rs)"
    unfolding slot_table_def set_append by blast
  then show ?thesis
  proof (elim disjE)
    assume "(tok, v) \<in> set (zip (map (slot_token ''E'') [0..<length es]) es)"
    from zip_slot_member [OF this] show ?thesis by blast
  next
    assume "(tok, v) \<in> set (zip (map (slot_token ''T'') [0..<length ts]) ts)"
    from zip_slot_member [OF this] show ?thesis by blast
  next
    assume "(tok, v) \<in> set (zip (map (slot_token ''R'') [0..<length rs]) rs)"
    from zip_slot_member [OF this] show ?thesis by blast
  qed
qed

lemma slot_table_keys:
  "map fst (slot_table es ts rs) =
     map (slot_token ''E'') [0..<length es] @ map (slot_token ''T'') [0..<length ts]
     @ map (slot_token ''R'') [0..<length rs]"
  by (simp add: slot_table_def)

lemma clean_not_contains:
  assumes "clean_value es ts rs v"
  shows "j < length es \<Longrightarrow> \<not> str_contains v (slot_token ''E'' j)"
    and "j < length ts \<Longrightarrow> \<not> str_contains v (slot_token ''T'' j)"
    and "j < length rs \<Longrightarrow> \<not> str_contains v (slot_token ''R'' j)"
proof -
  have a: "\<And>p. p \<in> set (map fst (slot_table es ts rs)) \<Longrightarrow> \<not> str_contains v p"
    using assms unfolding clean_value_def by blast
  show "j < length es \<Longrightarrow> \<not> str_contains v (slot_token ''E'' j)"
    by (rule a) (simp add: slot_table_keys)
  show "j < length ts \<Longrightarrow> \<not> str_contains v (slot_token ''T'' j)"
    by (rule a) (simp add: slot_table_keys)
  show "j < length rs \<Longrightarrow> \<not> str_contains v (slot_token ''R'' j)"
    by (rule a) (simp add: slot_table_keys)
qed

lemma token_value:
  assumes len: "length es \<le> 9" "length ts \<le> 9" "length rs \<le> 9"
    and clean: "\<forall>v\<in>set (es @ ts @ rs). clean_value es ts rs v"
    and tab: "map_of (slot_table es ts rs) tok = Some v"
  shows "fill_token es ts rs tok = v"
proof -
  have idE: "subst_slots ''E'' 0 es s = s" if "\<forall>j<length es. \<not> str_contains s (slot_token ''E'' j)" for s
    using subst_id [of es s "''E''" 0] that by simp
  have idT: "subst_slots ''T'' 0 ts s = s" if "\<forall>j<length ts. \<not> str_contains s (slot_token ''T'' j)" for s
    using subst_id [of ts s "''T''" 0] that by simp
  have idR: "subst_slots ''R'' 0 rs s = s" if "\<forall>j<length rs. \<not> str_contains s (slot_token ''R'' j)" for s
    using subst_id [of rs s "''R''" 0] that by simp
  have hit: "subst_slots [l] 0 vs (slot_token [l] i) = vs ! i"
    if "i < length vs" "length vs \<le> 9"
      "\<forall>j<length vs. \<not> str_contains (vs ! i) (slot_token [l] j)" for l vs i
  proof -
    have "\<forall>j<i. \<not> str_contains (slot_token [l] (0 + i)) (slot_token [l] (0 + j))"
      using that(1,2) by (simp add: slot_token_contains)
    moreover have "\<forall>j<length vs. i < j \<longrightarrow> \<not> str_contains (vs ! i) (slot_token [l] (0 + j))"
      using that(3) by simp
    ultimately show ?thesis using subst_hit [of i vs "[l]" 0] that(1) by simp
  qed
  from slot_table_cases [OF tab] show ?thesis
  proof (elim disjE exE conjE)
    fix i assume i: "i < length es" "tok = slot_token ''E'' i" "v = es ! i"
    then have c: "clean_value es ts rs v" using clean by simp
    have "subst_slots ''E'' 0 es tok = v"
      using hit [of i es "CHR ''E''"] i len clean_not_contains(1) [OF c] by simp
    moreover have "subst_slots ''T'' 0 ts v = v"
      by (rule idT) (use clean_not_contains(2) [OF c] in blast)
    moreover have "subst_slots ''R'' 0 rs v = v"
      by (rule idR) (use clean_not_contains(3) [OF c] in blast)
    ultimately show ?thesis by (simp add: fill_token_def)
  next
    fix i assume i: "i < length ts" "tok = slot_token ''T'' i" "v = ts ! i"
    then have c: "clean_value es ts rs v" using clean by simp
    have "subst_slots ''E'' 0 es tok = tok"
      by (rule idE) (use i len in \<open>simp add: slot_token_contains\<close>)
    moreover have "subst_slots ''T'' 0 ts tok = v"
      using hit [of i ts "CHR ''T''"] i len clean_not_contains(2) [OF c] by simp
    moreover have "subst_slots ''R'' 0 rs v = v"
      by (rule idR) (use clean_not_contains(3) [OF c] in blast)
    ultimately show ?thesis by (simp add: fill_token_def)
  next
    fix i assume i: "i < length rs" "tok = slot_token ''R'' i" "v = rs ! i"
    then have c: "clean_value es ts rs v" using clean by simp
    have "subst_slots ''E'' 0 es tok = tok"
      by (rule idE) (use i len in \<open>simp add: slot_token_contains\<close>)
    moreover have "subst_slots ''T'' 0 ts tok = tok"
      by (rule idT) (use i len in \<open>simp add: slot_token_contains\<close>)
    moreover have "subst_slots ''R'' 0 rs tok = v"
      using hit [of i rs "CHR ''R''"] i len clean_not_contains(3) [OF c] by simp
    ultimately show ?thesis by (simp add: fill_token_def)
  qed
qed

lemma set_join: "set (str_join sep xs) \<subseteq> set sep \<union> \<Union> (set ` set xs)"
  by (induction sep xs rule: str_join.induct) auto

lemma startswith_Cons2:
  "str_startswith (x # y # r) [a, b] \<longleftrightarrow> x = a \<and> y = b"
  by (simp add: str_startswith_def)

lemma startswith_append_tail:
  assumes "sep \<notin> set (tl old)" "a \<noteq> []"
  shows "str_startswith (a @ sep # b) old \<longleftrightarrow> str_startswith a old \<and> length old \<le> length a"
proof
  assume h: "str_startswith (a @ sep # b) old"
  have le: "length old \<le> length a"
  proof (rule ccontr)
    assume "\<not> length old \<le> length a"
    then have lt: "length a < length old" by simp
    then have "take (length old) (a @ sep # b) ! length a = sep"
      by (simp add: nth_append)
    then have "old ! length a = sep" using h by (simp add: str_startswith_def)
    moreover have pos: "0 < length a" using assms(2) by simp
    ultimately have "tl old ! (length a - 1) = sep" using lt by (cases old) (auto simp: nth_Cons')
    moreover have "length a - 1 < length (tl old)" using lt pos by (cases a; cases old) auto
    ultimately have "sep \<in> set (tl old)" by (metis nth_mem)
    with assms(1) show False by simp
  qed
  with h show "str_startswith a old \<and> length old \<le> length a"
    by (simp add: str_startswith_def)
next
  assume "str_startswith a old \<and> length old \<le> length a"
  then show "str_startswith (a @ sep # b) old" by (simp add: str_startswith_def)
qed

lemma replace_split:
  assumes "old \<noteq> []" "sep \<notin> set (tl old)"
  shows "str_replace (a @ sep # b) old new = str_replace a old new @ str_replace (sep # b) old new"
proof (induction a rule: length_induct)
  case (1 a)
  show ?case
  proof (cases a)
    case Nil
    then show ?thesis using assms(1) by (simp add: replace_Nil)
  next
    case (Cons c cs)
    then have ne: "a \<noteq> []" by simp
    show ?thesis
    proof (cases "str_startswith a old")
      case True
      then have le: "length old \<le> length a" by (rule startswith_length)
      have sw: "str_startswith (a @ sep # b) old"
        using True le startswith_append_tail [OF assms(2) ne] by blast
      have lt: "length (drop (length old) a) < length a"
        using assms(1) Cons by simp
      have "str_replace (drop (length old) a @ sep # b) old new =
              str_replace (drop (length old) a) old new @ str_replace (sep # b) old new"
        using 1 lt by blast
      moreover have "drop (length old) (a @ sep # b) = drop (length old) a @ sep # b"
        using le by simp
      ultimately show ?thesis
        using True sw Cons assms(1) by (simp add: replace_Cons)
    next
      case False
      then have nsw: "\<not> str_startswith (a @ sep # b) old"
        using startswith_append_tail [OF assms(2) ne] by blast
      have "str_replace (cs @ sep # b) old new = str_replace cs old new @ str_replace (sep # b) old new"
        using 1 Cons by simp
      then show ?thesis
        using False nsw Cons assms(1) by (simp add: replace_Cons)
    qed
  qed
qed

lemma startswith_space:
  "str_startswith (CHR '' '' # s) '' p:'' \<longleftrightarrow> str_startswith s ''p:''"
  by (simp add: str_startswith_def)

lemma prop_step_space: "prop_step (CHR '' '' # s) = CHR '' '' # after_space s"
  by (simp add: after_space_def prop_step_def replace_Cons)

lemma spacewise_after_space: "spacewise after_space"
proof -
  have "after_space [] = []"
    by (simp add: after_space_def prop_step_def replace_Cons replace_Nil str_startswith_def)
  moreover have "after_space (a @ CHR '' '' # b) = after_space a @ CHR '' '' # after_space b" for a b
  proof -
    have "prop_step ((CHR '' '' # a) @ CHR '' '' # b) =
            prop_step (CHR '' '' # a) @ prop_step (CHR '' '' # b)"
      unfolding prop_step_def by (rule replace_split) simp_all
    then show ?thesis by (simp add: prop_step_space)
  qed
  ultimately show ?thesis by (simp add: spacewise_def)
qed

lemma after_space_token:
  assumes "CHR '' '' \<notin> set t"
  shows "after_space t = prop_token t"
proof -
  have nc: "\<not> str_contains s '' p:''" if "CHR '' '' \<notin> set s" for s
    using contains_set [of s "'' p:''"] that by auto
  have "CHR '' '' \<notin> set (drop (Suc (Suc 0)) t)" using assms by (meson in_set_dropD)
  then have d: "str_replace (drop (Suc (Suc 0)) t) '' p:'' '' http://www.wikidata.org/prop/'' =
                  drop (Suc (Suc 0)) t"
    by (intro replace_not_contained nc) simp_all
  have i: "str_replace t '' p:'' '' http://www.wikidata.org/prop/'' = t"
    using assms by (intro replace_not_contained nc) simp_all
  show ?thesis
    by (simp add: after_space_def prop_step_def replace_Cons startswith_space prop_token_def d i
        numeral_2_eq_2)
qed

lemma prop_step_query: "\<not> str_startswith q ''p:'' \<Longrightarrow> prop_step q = after_space q"
  by (simp add: after_space_def prop_step_def replace_Cons startswith_space)

lemma join_Cons: "str_join sep (x # xs) = x @ (if xs = [] then [] else sep @ str_join sep xs)"
  by (cases xs) simp_all

lemma not_startswith_p:
  assumes "t \<noteq> []" "\<not> str_startswith t ''p:''" "rest = [] \<or> hd rest = CHR '' ''"
  shows "\<not> str_startswith (t @ rest) ''p:''"
proof (cases t)
  case Nil
  then show ?thesis using assms(1) by simp
next
  case (Cons c cs)
  show ?thesis
  proof (cases cs)
    case Nil
    then show ?thesis using Cons assms(3) by (cases rest) (auto simp: str_startswith_def)
  next
    case (Cons d ds)
    then show ?thesis using \<open>t = c # cs\<close> assms(2) by (simp add: str_startswith_def)
  qed
qed

lemma query_not_startswith_p:
  assumes "query \<noteq> []" "\<forall>row\<in>set query. row_ok row" "\<not> str_startswith (hd (hd query)) ''p:''"
  shows "\<not> str_startswith (str_join ''  '' (map (str_join '' '') query)) ''p:''"
proof -
  obtain row rows where q: "query = row # rows" using assms(1) by (cases query) auto
  then have "row_ok row" using assms(2) by simp
  then obtain t r where row: "row = t # r" and t: "t \<noteq> []"
    by (cases row) (auto simp: row_ok_def)
  have "\<exists>rest. str_join ''  '' (map (str_join '' '') query) = t @ rest \<and> (rest = [] \<or> hd rest = CHR '' '')"
    unfolding q row by (simp add: join_Cons)
  then obtain rest where "str_join ''  '' (map (str_join '' '') query) = t @ rest"
    and "rest = [] \<or> hd rest = CHR '' ''" by blast
  moreover have "\<not> str_startswith t ''p:''" using assms(3) q row by simp
  ultimately show ?thesis using not_startswith_p [OF t] by simp
qed

lemma replace_keeps_head:
  assumes "old \<noteq> []" "new \<noteq> []" "hd new \<noteq> CHR ''p''" "hd new \<noteq> CHR '':''"
    and "str_startswith (str_replace s old new) ''p:''"
  shows "str_startswith s ''p:''"
proof (cases s)
  case Nil
  then show ?thesis using assms(1,5) by (simp add: replace_Nil str_startswith_def)
next
  case (Cons c cs)
  obtain n ns where new: "new = n # ns" using assms(2) by (cases new) auto
  have n0: "\<not> str_startswith (new @ x) ''p:''" for x
    using assms(3) new by (cases "ns @ x") (auto simp: str_startswith_def)
  have nsw: "\<not> str_startswith s old" using assms(5) n0 Cons assms(1) by (auto simp: replace_Cons)
  then have r: "str_replace s old new = c # str_replace cs old new"
    using Cons assms(1) by (simp add: replace_Cons)
  show ?thesis
  proof (cases cs)
    case Nil
    then show ?thesis using r assms(1,5) by (simp add: replace_Nil str_startswith_def)
  next
    case (Cons d ds)
    have "\<not> str_startswith cs old"
    proof
      assume "str_startswith cs old"
      then have "str_replace cs old new = n # ns @ str_replace (drop (length old) cs) old new"
        using Cons assms(1) new by (simp add: replace_Cons)
      then show False using assms(4,5) r new by (simp add: startswith_Cons2)
    qed
    then have "str_replace cs old new = d # str_replace ds old new"
      using Cons assms(1) by (simp add: replace_Cons)
    then show ?thesis using assms(5) r Cons \<open>s = c # cs\<close> by (simp add: startswith_Cons2)
  qed
qed

lemma expand_head_keeps_head:
  "\<not> str_startswith t ''p:'' \<Longrightarrow> \<not> str_startswith (expand_head t) ''p:''"
proof
  assume n: "\<not> str_startswith t ''p:''" and h: "str_startswith (expand_head t) ''p:''"
  have "str_startswith (str_replace (str_replace t ''P0'' ''http://schema.org/description'')
                          ''wd:'' ''http://www.wikidata.org/entity/'') ''p:''"
    by (rule replace_keeps_head [OF _ _ _ _ h [unfolded expand_head_def]]) simp_all
  then have "str_startswith (str_replace t ''P0'' ''http://schema.org/description'') ''p:''"
    by (rule replace_keeps_head [rotated 4]) simp_all
  then have "str_startswith t ''p:''"
    by (rule replace_keeps_head [rotated 4]) simp_all
  with n show False by simp
qed

lemma spacewise_query:
  assumes "spacewise f"
  shows "f (str_join ''  '' (map (str_join '' '') query)) =
           str_join ''  '' (map (str_join '' '') (map (map f) query))"
proof -
  have "map f (map (str_join '' '') query) = map (str_join '' '') (map (map f) query)"
    by (simp add: spacewise_join1 [OF assms])
  then show ?thesis by (simp only: spacewise_join2 [OF assms])
qed

lemma spacewise_fill_token: "spacewise (fill_token es ts rs)"
proof -
  have e: "spacewise (subst_slots ''E'' 0 es)" by (rule spacewise_subst) simp
  have t: "spacewise (subst_slots ''T'' 0 ts)" by (rule spacewise_subst) simp
  have r: "spacewise (subst_slots ''R'' 0 rs)" by (rule spacewise_subst) simp
  have "spacewise (\<lambda>s. subst_slots ''R'' 0 rs (subst_slots ''T'' 0 ts (subst_slots ''E'' 0 es s)))"
    using e t r unfolding spacewise_def by simp
  then show ?thesis unfolding fill_token_def [abs_def] .
qed

lemma spacewise_expand_head: "spacewise expand_head"
proof -
  have a: "spacewise (\<lambda>s. str_replace s ''P0'' ''http://schema.org/description'')"
    by (rule spacewise_replace) simp_all
  have b: "spacewise (\<lambda>s. str_replace s ''wd:'' ''http://www.wikidata.org/entity/'')"
    by (rule spacewise_replace) simp_all
  have c: "spacewise (\<lambda>s. str_replace s ''wdt:'' ''http://www.wikidata.org/prop/direct/'')"
    by (rule spacewise_replace) simp_all
  show ?thesis using a b c unfolding spacewise_def expand_head_def by simp
qed

lemma spacewise_expand_tail: "spacewise expand_tail"
proof -
  have a: "spacewise (\<lambda>s. str_replace s ''wdt:'' ''http://www.wikidata.org/prop/direct/'')"
    by (rule spacewise_replace) simp_all
  have b: "spacewise (\<lambda>s. str_replace s ''ps:'' ''http://www.wikidata.org/prop/statement/'')"
    by (rule spacewise_replace) simp_all
  have c: "spacewise (\<lambda>s. str_replace s ''pq:'' ''http://www.wikidata.org/prop/qualifier/'')"
    by (rule spacewise_replace) simp_all
  show ?thesis using a b c unfolding spacewise_def expand_tail_def by simp
qed

lemma replace_ok:
  assumes "old \<noteq> []" "new \<noteq> []" "CHR '' '' \<notin> set new" "t \<noteq> [] \<and> CHR '' '' \<notin> set t"
  shows "str_replace t old new \<noteq> [] \<and> CHR '' '' \<notin> set (str_replace t old new)"
  using replace_nonempty [OF assms(1,2), of t] replace_set [OF assms(1), of t new] assms(3,4) by auto

lemma expand_head_ok:
  assumes "t \<noteq> [] \<and> CHR '' '' \<notin> set t"
  shows "expand_head t \<noteq> [] \<and> CHR '' '' \<notin> set (expand_head t)"
  unfolding expand_head_def
  by (intro replace_ok assms) simp_all

lemma expand_tail_ok:
  assumes "t \<noteq> [] \<and> CHR '' '' \<notin> set t"
  shows "expand_tail t \<noteq> [] \<and> CHR '' '' \<notin> set (expand_tail t)"
  unfolding expand_tail_def
  by (intro replace_ok assms) simp_all

lemma prop_token_ok:
  assumes "t \<noteq> [] \<and> CHR '' '' \<notin> set t"
  shows "prop_token t \<noteq> [] \<and> CHR '' '' \<notin> set (prop_token t)"
  using assms by (auto simp: prop_token_def dest: in_set_dropD)

lemma fill_token_ok:
  assumes "\<forall>v\<in>set (es @ ts @ rs). v \<noteq> [] \<and> CHR '' '' \<notin> set v" "t \<noteq> [] \<and> CHR '' '' \<notin> set t"
  shows "fill_token es ts rs t \<noteq> [] \<and> CHR '' '' \<notin> set (fill_token es ts rs t)"
proof
  show "fill_token es ts rs t \<noteq> []"
    unfolding fill_token_def using assms by (intro subst_nonempty) auto
  show "CHR '' '' \<notin> set (fill_token es ts rs t)"
    unfolding fill_token_def using assms by (intro subst_space_free) auto
qed

lemma fill_element_ok:
  assumes "\<forall>v\<in>set (es @ ts @ rs). v \<noteq> [] \<and> CHR '' '' \<notin> set v" "t \<noteq> [] \<and> CHR '' '' \<notin> set t"
  shows "fill_element es ts rs t \<noteq> [] \<and> CHR '' '' \<notin> set (fill_element es ts rs t)"
  unfolding fill_element_def expand_token_def
  by (intro fill_token_ok [OF assms(1)] expand_tail_ok prop_token_ok expand_head_ok assms(2))

lemma row_ok_map:
  assumes "\<And>t. t \<noteq> [] \<and> CHR '' '' \<notin> set t \<Longrightarrow> f t \<noteq> [] \<and> CHR '' '' \<notin> set (f t)"
    and "\<forall>row\<in>set query. row_ok row"
  shows "\<forall>row\<in>set (map (map f) query). row_ok row"
  using assms by (auto simp: row_ok_def)

lemma prefixes_fold:
  "foldl (\<lambda>q (query_str, wikidata_str). str_replace q query_str wikidata_str) q map_query_str_to_wikidata =
     expand_tail (prop_step (expand_head q))"
  by (simp add: map_query_str_to_wikidata_def expand_tail_def prop_step_def expand_head_def)

lemma expand_query:
  assumes "query \<noteq> []" "\<forall>row\<in>set query. row_ok row" "\<not> str_startswith (hd (hd query)) ''p:''"
  shows "expand_tail (prop_step (expand_head (str_join ''  '' (map (str_join '' '') query)))) =
           str_join ''  '' (map (str_join '' '') (map (map expand_token) query))"
proof -
  let ?J = "\<lambda>q. str_join ''  '' (map (str_join '' '') q)"
  let ?q1 = "map (map expand_head) query"
  have h: "expand_head (?J query) = ?J ?q1"
    by (rule spacewise_query [OF spacewise_expand_head])
  have ok1: "\<forall>row\<in>set ?q1. row_ok row"
    by (rule row_ok_map [OF expand_head_ok assms(2)])
  have ne1: "?q1 \<noteq> []" using assms(1) by simp
  obtain row rows where q: "query = row # rows" using assms(1) by (cases query) auto
  then have "row_ok row" using assms(2) by simp
  then obtain t r where row: "row = t # r" by (cases row) (auto simp: row_ok_def)
  have "hd (hd ?q1) = expand_head (hd (hd query))" by (simp add: q row)
  then have "\<not> str_startswith (hd (hd ?q1)) ''p:''"
    using expand_head_keeps_head [OF assms(3)] by simp
  then have "\<not> str_startswith (?J ?q1) ''p:''"
    by (rule query_not_startswith_p [OF ne1 ok1])
  then have "prop_step (?J ?q1) = after_space (?J ?q1)" by (rule prop_step_query)
  also have "\<dots> = ?J (map (map after_space) ?q1)"
    by (rule spacewise_query [OF spacewise_after_space])
  also have "map (map after_space) ?q1 = map (map prop_token) ?q1"
    using ok1 by (auto simp: row_ok_def after_space_token)
  finally have p: "prop_step (?J ?q1) = ?J (map (map prop_token) ?q1)" .
  have "expand_tail (?J (map (map prop_token) ?q1)) = ?J (map (map expand_tail) (map (map prop_token) ?q1))"
    by (rule spacewise_query [OF spacewise_expand_tail])
  moreover have "map (map expand_tail) (map (map prop_token) ?q1) = map (map expand_token) query"
    by (simp add: expand_token_def)
  ultimately show ?thesis by (simp only: h p)
qed

lemma fill_query_elements:
  assumes "query \<noteq> []" "\<forall>row\<in>set query. row_ok row" "\<not> str_startswith (hd (hd query)) ''p:''"
    and "\<forall>v\<in>set (es @ ts @ rs). v \<noteq> [] \<and> CHR '' '' \<notin> set v"
  shows "fill_query query (map VStr es @ [VInt er]) (map VStr ts @ [VInt tr]) (map VStr rs @ [VInt rr]) =
           Inr (map (map (fill_element es ts rs)) query)"
proof -
  let ?J = "\<lambda>q. str_join ''  '' (map (str_join '' '') q)"
  let ?filled = "map (map (fill_element es ts rs)) query"
  have ok: "\<forall>row\<in>set ?filled. row_ok row"
    by (rule row_ok_map [OF fill_element_ok [OF assms(4)] assms(2)])
  have ne: "?filled \<noteq> []" using assms(1) by simp
  have "fill_token es ts rs (?J (map (map expand_token) query)) =
          ?J (map (map (fill_token es ts rs)) (map (map expand_token) query))"
    by (rule spacewise_query [OF spacewise_fill_token])
  also have "map (map (fill_token es ts rs)) (map (map expand_token) query) = ?filled"
    by (simp add: fill_element_def)
  finally have j: "fill_token es ts rs (?J (map (map expand_token) query)) = ?J ?filled" .
  have sp: "map (\<lambda>triplet. str_split triplet '' '')
              (str_split (fill_token es ts rs (?J (map (map expand_token) query))) ''  '') = ?filled"
    unfolding j by (rule split_query [OF ne ok])
  have "fill_query query (map VStr es @ [VInt er]) (map VStr ts @ [VInt tr]) (map VStr rs @ [VInt rr]) =
          Inr (map (\<lambda>triplet. str_split triplet '' '')
                 (str_split (fill_token es ts rs (?J (map (map expand_token) query))) ''  ''))"
    by (simp add: fill_query_def Let_def butlast_append prefixes_fold expand_query [OF assms(1-3)]
        replace_slots_strings bind_err_def fill_token_def)
  then show ?thesis by (simp only: sp)
qed

lemma list_all2_map_self: "(\<And>x. x \<in> set xs \<Longrightarrow> P x (f x)) \<Longrightarrow> list_all2 P xs (map f xs)"
  by (induction xs) auto

lemma filled_slot_cases:
  "filled_slot tab ns tok = Some x \<Longrightarrow>
     \<exists>pre uri key v. (pre, uri) \<in> set ns \<and> tok = pre @ key \<and> map_of tab key = Some v \<and> x = uri @ v"
proof (induction ns)
  case Nil
  then show ?case by simp
next
  case (Cons p ns)
  obtain pre uri where p: "p = (pre, uri)" by (cases p)
  show ?case
  proof (cases "if str_startswith tok pre then map_of tab (drop (length pre) tok) else None")
    case None
    then have "filled_slot tab ns tok = Some x" using Cons.prems p by simp
    then show ?thesis using Cons.IH by auto
  next
    case (Some v)
    then have sw: "str_startswith tok pre" and m: "map_of tab (drop (length pre) tok) = Some v"
      by (simp_all split: if_splits)
    have "tok = pre @ drop (length pre) tok"
      using sw append_take_drop_id [of "length pre" tok] by (simp add: str_startswith_def)
    moreover have "x = uri @ v" using Cons.prems p Some by simp
    ultimately show ?thesis using m p by fastforce
  qed
qed

lemma table_key:
  assumes "length es \<le> 9" "length ts \<le> 9" "length rs \<le> 9"
    and "map_of (slot_table es ts rs) key = Some v"
  shows "\<exists>X d. key = [X, d] \<and> X \<in> set ''ETR''"
  using slot_table_cases [OF assms(4)] assms(1-3)
  by (elim disjE exE conjE) (simp_all add: slot_token_single)

lemma replace_key_suffix:
  assumes "X \<notin> set old" "2 \<le> length old"
  shows "str_replace (a @ [X, d]) old new = str_replace a old new @ [X, d]"
proof -
  have ne: "old \<noteq> []" using assms(2) by auto
  have "\<not> str_contains [d] old" by (rule contains_short) (use assms(2) in simp)
  then have "str_replace [d] old new = [d]" by (rule replace_not_contained [OF ne])
  then show ?thesis using replace_sep [OF ne assms(1), of a "[d]" new] by simp
qed

lemma expand_head_suffix:
  "X \<in> set ''ETR'' \<Longrightarrow> expand_head (a @ [X, d]) = expand_head a @ [X, d]"
  by (auto simp: expand_head_def replace_key_suffix)

lemma expand_tail_suffix:
  "X \<in> set ''ETR'' \<Longrightarrow> expand_tail (a @ [X, d]) = expand_tail a @ [X, d]"
  by (auto simp: expand_tail_def replace_key_suffix)

lemma prop_token_suffix:
  assumes "X \<in> set ''ETR''"
  shows "prop_token (a @ [X, d]) = prop_token a @ [X, d]"
proof (cases a)
  case Nil
  then show ?thesis using assms by (auto simp: prop_token_def str_startswith_def)
next
  case (Cons c cs)
  then show ?thesis using assms by (cases cs) (auto simp: prop_token_def str_startswith_def)
qed

lemma expand_token_suffix:
  "X \<in> set ''ETR'' \<Longrightarrow> expand_token (a @ [X, d]) = expand_token a @ [X, d]"
  by (simp only: expand_token_def expand_head_suffix prop_token_suffix expand_tail_suffix)

lemma namespaces_expand:
  assumes "(pre, uri) \<in> set namespaces"
  shows "expand_token pre = uri \<and> CHR ''E'' \<notin> set uri \<and> CHR ''T'' \<notin> set uri \<and> CHR ''R'' \<notin> set uri"
proof -
  have "list_all (\<lambda>(pre, uri). expand_token pre = uri \<and> CHR ''E'' \<notin> set uri \<and> CHR ''T'' \<notin> set uri
                                  \<and> CHR ''R'' \<notin> set uri) namespaces"
    by code_simp
  then show ?thesis using assms by (auto simp: list_all_iff)
qed

lemma replace_skip_prefix:
  assumes "old \<noteq> []" "hd old \<notin> set a"
  shows "str_replace (a @ s) old new = a @ str_replace s old new"
  using assms(2)
proof (induction a)
  case Nil
  then show ?case by simp
next
  case (Cons c cs)
  have "\<not> str_startswith (c # cs @ s) old"
    using Cons.prems assms(1) by (cases old) (auto simp: str_startswith_def)
  then show ?case using Cons assms(1) by (simp add: replace_Cons)
qed

lemma subst_skip:
  "l \<notin> set a \<Longrightarrow> subst_slots [l] n vs (a @ s) = a @ subst_slots [l] n vs s"
  by (induction vs arbitrary: n s) (simp_all add: replace_skip_prefix)

lemma fill_token_skip:
  "CHR ''E'' \<notin> set a \<Longrightarrow> CHR ''T'' \<notin> set a \<Longrightarrow> CHR ''R'' \<notin> set a \<Longrightarrow>
     fill_token es ts rs (a @ s) = a @ fill_token es ts rs s"
  by (simp add: fill_token_def subst_skip)

lemma element_value:
  assumes len: "length es \<le> 9" "length ts \<le> 9" "length rs \<le> 9"
    and clean: "\<forall>v\<in>set (es @ ts @ rs). clean_value es ts rs v"
    and slot: "filled_slot (slot_table es ts rs) namespaces tok = Some x"
  shows "fill_element es ts rs tok = x"
proof -
  from filled_slot_cases [OF slot] obtain pre uri key v where
    ns: "(pre, uri) \<in> set namespaces" and tok: "tok = pre @ key"
    and tab: "map_of (slot_table es ts rs) key = Some v" and x: "x = uri @ v"
    by blast
  from table_key [OF len tab] obtain X d where key: "key = [X, d]" and X: "X \<in> set ''ETR''"
    by blast
  have "expand_token tok = uri @ key"
    unfolding tok key using expand_token_suffix [OF X] namespaces_expand [OF ns] by simp
  then have "fill_element es ts rs tok = uri @ fill_token es ts rs key"
    using namespaces_expand [OF ns] by (simp add: fill_element_def fill_token_skip)
  then show ?thesis using token_value [OF len clean tab] x by simp
qed

text \<open>
  C5 (as amended). Take a template whose triples have non-empty elements without spaces
  and whose first element does not begin with \<open>p:\<close>, and a binding combination with at most
  nine entities, nine types and nine relations whose identifiers are non-empty, free of
  spaces and contain no placeholder of the combination. Then \<open>fill_query\<close> returns a query
  of the same shape, and at every position where the template has a placeholder, bare or
  behind one of the prefixes \<open>wd:\<close>, \<open>wdt:\<close>, \<open>p:\<close>, \<open>ps:\<close>, \<open>pq:\<close>, the filled query holds the
  expanded prefix followed by the identifier that the combination binds to the placeholder.
  With ten or more slots of one kind the statement fails, because the substitution of
  \<open>E1\<close> also rewrites the first two characters of \<open>E10\<close>.
\<close>

theorem fill_query_round_trip:
  assumes "length es \<le> 9" "length ts \<le> 9" "length rs \<le> 9"
    and "query \<noteq> []" "\<forall>row\<in>set query. row_ok row"
    and "\<not> str_startswith (hd (hd query)) ''p:''"
    and "\<forall>v\<in>set (es @ ts @ rs). clean_value es ts rs v"
  shows "round_trip query (es, er) (ts, tr) (rs, rr)"
proof -
  have v: "\<forall>v\<in>set (es @ ts @ rs). v \<noteq> [] \<and> CHR '' '' \<notin> set v"
    using assms(7) by (simp add: clean_value_def)
  have row: "list_all2 (\<lambda>tok ftok. case filled_slot (slot_table es ts rs) namespaces tok of
                                      None \<Rightarrow> True | Some v \<Rightarrow> ftok = v)
          row (map (fill_element es ts rs) row)" for row
    by (rule list_all2_map_self)
      (simp add: element_value [OF assms(1-3) assms(7)] split: option.split)
  have "list_all2 (list_all2 (\<lambda>tok ftok. case filled_slot (slot_table es ts rs) namespaces tok of
                                     None \<Rightarrow> True | Some v \<Rightarrow> ftok = v))
          query (map (map (fill_element es ts rs)) query)"
    by (rule list_all2_map_self) (rule row)
  then show ?thesis
    by (simp add: round_trip_def fill_query_elements [OF assms(4-6) v])
qed

lemma statement_rows:
  "\<forall>row\<in>set [[''wd:E1'', ''p:R1'', ''?s''], [''?s'', ''ps:R1'', ''?obj'']]. row_ok row"
  by code_simp

lemma statement_values:
  "\<forall>v\<in>set ([''Q159''] @ [] @ [''P17'']). clean_value [''Q159''] [] [''P17''] v"
  by code_simp

lemma fill_statement:
  "fill_query [[''wd:E1'', ''p:R1'', ''?s''], [''?s'', ''ps:R1'', ''?obj'']]
     [VStr ''Q159'', VInt 0] [VInt 0] [VStr ''P17'', VInt 0] =
   Inr [[''http://www.wikidata.org/entity/Q159'', ''http://www.wikidata.org/prop/P17'', ''?s''],
        [''?s'', ''http://www.wikidata.org/prop/statement/P17'', ''?obj'']]"
  by code_simp

theorem fill_query_round_trip_witness:
  "round_trip [[''wd:E1'', ''p:R1'', ''?s''], [''?s'', ''ps:R1'', ''?obj'']]
     ([''Q159''], 0) ([], 0) ([''P17''], 0)
   \<and> fill_query [[''wd:E1'', ''p:R1'', ''?s''], [''?s'', ''ps:R1'', ''?obj'']]
        [VStr ''Q159'', VInt 0] [VInt 0] [VStr ''P17'', VInt 0] =
       Inr [[''http://www.wikidata.org/entity/Q159'', ''http://www.wikidata.org/prop/P17'', ''?s''],
            [''?s'', ''http://www.wikidata.org/prop/statement/P17'', ''?obj'']]"
proof -
  have "round_trip [[''wd:E1'', ''p:R1'', ''?s''], [''?s'', ''ps:R1'', ''?obj'']]
          ([''Q159''], 0) ([], 0) ([''P17''], 0)"
    by (rule fill_query_round_trip [OF _ _ _ _ statement_rows _ statement_values])
      (simp_all add: str_startswith_def)
  then show ?thesis by (simp add: fill_statement)
qed

theorem fill_query_round_trip_counterexample:
  "fill_query [[''wd:E10'', ''wdt:R1'', ''?obj'']]
     [VStr ''Q11'', VStr ''Q12'', VStr ''Q13'', VStr ''Q14'', VStr ''Q15'', VStr ''Q16'', VStr ''Q17'',
      VStr ''Q18'', VStr ''Q19'', VStr ''Q20'', VInt 0] [VInt 0] [VStr ''P17'', VInt 0] =
     Inr [[''http://www.wikidata.org/entity/Q110'', ''http://www.wikidata.org/prop/direct/P17'', ''?obj'']]
   \<and> \<not> round_trip [[''wd:E10'', ''wdt:R1'', ''?obj'']]
        ([''Q11'', ''Q12'', ''Q13'', ''Q14'', ''Q15'', ''Q16'', ''Q17'', ''Q18'', ''Q19'', ''Q20''], 0)
        ([], 0) ([''P17''], 0)"
  by code_simp

end
